theory Spec2Isabelle
  imports Main "HOL-Library.Sublist"
begin


section \<open>Python strings\<close>

text \<open>
  A Python \<^verbatim>\<open>str\<close> is modelled by its UTF-8 encoding, a \<^typ>\<open>string\<close> of bytes: the
  files of the program are read and written with \<^verbatim>\<open>encoding="utf-8"\<close>, and substring
  search, replacement and slicing at a found position agree on a text and on its encoding.
  \<^verbatim>\<open>str.strip()\<close> removes the characters for which \<^verbatim>\<open>str.isspace()\<close> holds; their
  encodings are listed in \<open>WHITESPACE\<close>.
\<close>

definition WHITESPACE :: "string list" where
  "WHITESPACE =
     [[CHR 0x09], [CHR 0x0A], [CHR 0x0B], [CHR 0x0C], [CHR 0x0D],
      [CHR 0x1C], [CHR 0x1D], [CHR 0x1E], [CHR 0x1F], [CHR 0x20],
      [CHR 0xC2, CHR 0x85], [CHR 0xC2, CHR 0xA0], [CHR 0xE1, CHR 0x9A, CHR 0x80],
      [CHR 0xE2, CHR 0x80, CHR 0x80], [CHR 0xE2, CHR 0x80, CHR 0x81],
      [CHR 0xE2, CHR 0x80, CHR 0x82], [CHR 0xE2, CHR 0x80, CHR 0x83],
      [CHR 0xE2, CHR 0x80, CHR 0x84], [CHR 0xE2, CHR 0x80, CHR 0x85],
      [CHR 0xE2, CHR 0x80, CHR 0x86], [CHR 0xE2, CHR 0x80, CHR 0x87],
      [CHR 0xE2, CHR 0x80, CHR 0x88], [CHR 0xE2, CHR 0x80, CHR 0x89],
      [CHR 0xE2, CHR 0x80, CHR 0x8A], [CHR 0xE2, CHR 0x80, CHR 0xA8],
      [CHR 0xE2, CHR 0x80, CHR 0xA9], [CHR 0xE2, CHR 0x80, CHR 0xAF],
      [CHR 0xE2, CHR 0x81, CHR 0x9F], [CHR 0xE3, CHR 0x80, CHR 0x80]]"

text \<open>Removes from the front of \<open>s\<close> every leading member of \<open>ws\<close>, repeatedly.\<close>

function strip_prefixes :: "string list \<Rightarrow> string \<Rightarrow> string" where
  "strip_prefixes ws s =
     (case find (\<lambda>w. prefix w s) ws of
        None \<Rightarrow> s
      | Some w \<Rightarrow> if w = [] then s else strip_prefixes ws (drop (length w) s))"
  by pat_completeness auto
termination
proof (relation "measure (\<lambda>(ws, s). length s)")
  show "wf (measure (\<lambda>(ws, s). length s))" by simp
next
  fix ws :: "string list" and s w :: string
  assume f: "find (\<lambda>w. prefix w s) ws = Some w" and ne: "w \<noteq> []"
  from f have "prefix w s" by (auto simp: find_Some_iff)
  then obtain r where "s = w @ r" by (auto simp: prefix_def)
  with ne show "((ws, drop (length w) s), (ws, s)) \<in> measure (\<lambda>(ws, s). length s)"
    by simp
qed

definition lstrip :: "string \<Rightarrow> string" where
  "lstrip s = strip_prefixes WHITESPACE s"

definition rstrip :: "string \<Rightarrow> string" where
  "rstrip s = rev (strip_prefixes (map rev WHITESPACE) (rev s))"

definition strip :: "string \<Rightarrow> string" where
  "strip s = rstrip (lstrip s)"

text \<open>
  \<^verbatim>\<open>s.replace(old, new)\<close> for a non-empty \<open>old\<close>: the occurrences are found from left to
  right and do not overlap. (For an empty \<open>old\<close> Python inserts \<open>new\<close> between all characters;
  the program never does that, and the model returns \<open>s\<close>.)
\<close>

function py_replace :: "string \<Rightarrow> string \<Rightarrow> string \<Rightarrow> string" where
  "py_replace old new s =
     (case s of
        [] \<Rightarrow> []
      | c # cs \<Rightarrow>
          if old \<noteq> [] \<and> prefix old s then new @ py_replace old new (drop (length old) s)
          else c # py_replace old new cs)"
  by pat_completeness auto
termination
  by (relation "measure (\<lambda>(old, new, s). length s)") auto

declare py_replace.simps [simp del]

text \<open>
  Reading a file in text mode with \<^verbatim>\<open>encoding="utf-8"\<close>: the bytes must be well-formed
  UTF-8 (no overlong form, no surrogate, nothing above U+10FFFF), else Python raises
  \<^verbatim>\<open>UnicodeDecodeError\<close>; and every line ending \<^verbatim>\<open>\r\n\<close> or \<^verbatim>\<open>\r\<close> is read as \<^verbatim>\<open>\n\<close>.
\<close>

definition byte_in :: "nat \<Rightarrow> nat \<Rightarrow> char \<Rightarrow> bool" where
  "byte_in lo hi c = (lo \<le> of_char c \<and> of_char c \<le> hi)"

fun utf8_valid :: "string \<Rightarrow> bool" where
  "utf8_valid [] = True"
| "utf8_valid [a] = byte_in 0x00 0x7F a"
| "utf8_valid [a, b] =
     (if byte_in 0x00 0x7F a then utf8_valid [b]
      else byte_in 0xC2 0xDF a \<and> byte_in 0x80 0xBF b)"
| "utf8_valid [a, b, c] =
     (if byte_in 0x00 0x7F a then utf8_valid [b, c]
      else if byte_in 0xC2 0xDF a then byte_in 0x80 0xBF b \<and> utf8_valid [c]
      else (byte_in 0xE0 0xE0 a \<and> byte_in 0xA0 0xBF b
            \<or> (byte_in 0xE1 0xEC a \<or> byte_in 0xEE 0xEF a) \<and> byte_in 0x80 0xBF b
            \<or> byte_in 0xED 0xED a \<and> byte_in 0x80 0x9F b)
           \<and> byte_in 0x80 0xBF c)"
| "utf8_valid (a # b # c # d # s) =
     (if byte_in 0x00 0x7F a then utf8_valid (b # c # d # s)
      else if byte_in 0xC2 0xDF a then byte_in 0x80 0xBF b \<and> utf8_valid (c # d # s)
      else if byte_in 0xE0 0xEF a then
        (byte_in 0xE0 0xE0 a \<and> byte_in 0xA0 0xBF b
         \<or> (byte_in 0xE1 0xEC a \<or> byte_in 0xEE 0xEF a) \<and> byte_in 0x80 0xBF b
         \<or> byte_in 0xED 0xED a \<and> byte_in 0x80 0x9F b)
        \<and> byte_in 0x80 0xBF c \<and> utf8_valid (d # s)
      else
        (byte_in 0xF0 0xF0 a \<and> byte_in 0x90 0xBF b
         \<or> byte_in 0xF1 0xF3 a \<and> byte_in 0x80 0xBF b
         \<or> byte_in 0xF4 0xF4 a \<and> byte_in 0x80 0x8F b)
        \<and> byte_in 0x80 0xBF c \<and> byte_in 0x80 0xBF d \<and> utf8_valid s)"

definition universal_newlines :: "string \<Rightarrow> string" where
  "universal_newlines s =
     py_replace [CHR 0x0D] [CHR 0x0A] (py_replace [CHR 0x0D, CHR 0x0A] [CHR 0x0A] s)"

definition read_text :: "string \<Rightarrow> string option" where
  "read_text b = (if utf8_valid b then Some (universal_newlines b) else None)"

section \<open>split_and_transcribe.py\<close>

subsection \<open>Files and external collaborators\<close>

text \<open>
  The paths the function touches, for one source file: the source itself, the aggregate
  transcript \<^verbatim>\<open>OUTPUT_DIR / f"{base}_full.txt"\<close>, and for each segment index \<open>i\<close> the
  audio slice \<^verbatim>\<open>CHUNKS_DIR / f"{base}_part{i}.mp3"\<close> and its transcript
  \<^verbatim>\<open>CHUNKS_DIR / f"{base}_part{i}.txt"\<close>. They are pairwise different names (different
  directory, suffix or index), hence a datatype. A file system maps a path to the bytes
  stored there.
\<close>

datatype path = file_path | full_txt | chunk_path nat | part_txt nat

type_synonym filesystem = "path \<Rightarrow> string option"

text \<open>
  The ways the call fails: a file cannot be read or written, the engine fails, or a
  segment transcript is not UTF-8 text (\<^verbatim>\<open>UnicodeDecodeError\<close>).
\<close>

datatype error = IOFailure | EngineFailure | DecodeFailure

text \<open>
  What the world outside the function does. \<open>export\<close> of a slice either writes the file or
  raises, possibly after the file was created (\<open>Some\<close> of what it holds then).
  The Whisper subprocess either exits with status 0, or with another status, which
  \<^verbatim>\<open>check=True\<close> turns into \<^verbatim>\<open>CalledProcessError\<close>; in both cases it may or may not have
  written its \<^verbatim>\<open>.txt\<close> output.
\<close>

datatype export_outcome = Exported | ExportFailed "string option"

datatype engine_outcome = Succeeded "string option" | Failed "string option"

record env =
  decode :: "string \<Rightarrow> nat option"
  encode :: "nat \<Rightarrow> nat \<Rightarrow> string"
  export_mp3 :: "nat \<Rightarrow> export_outcome"
  whisper :: "nat \<Rightarrow> string \<Rightarrow> string \<Rightarrow> engine_outcome"

text \<open>
  \<open>decode\<close> is \<^verbatim>\<open>AudioSegment.from_file\<close> on the bytes of a file: the duration in
  milliseconds, or \<open>None\<close> when they cannot be decoded. \<open>encode start len\<close> is the mp3 of a
  slice. \<open>export_mp3 i\<close> and \<open>whisper i model lang\<close> tell how the export and the
  transcription of segment \<open>i\<close> end.

  The state is the file system and the trace of the calls made to the collaborators.
\<close>

datatype event = Export nat nat nat | Whisper nat string string

record world =
  fs :: filesystem
  trace :: "event list"

definition unlink :: "path \<Rightarrow> world \<Rightarrow> world" where
  "unlink p st = st\<lparr>fs := (fs st)(p := None)\<rparr>"

definition write_opt :: "path \<Rightarrow> string option \<Rightarrow> world \<Rightarrow> world" where
  "write_opt p out st = (case out of None \<Rightarrow> st | Some b \<Rightarrow> st\<lparr>fs := (fs st)(p \<mapsto> b)\<rparr>)"

definition SEGMENT_MS :: nat where
  "SEGMENT_MS = 10 * 60 * 1000"

subsection \<open>The loop header\<close>

text \<open>
  \<^verbatim>\<open>range(start, stop, step)\<close> for a positive step (Python raises \<^verbatim>\<open>ValueError\<close> for step 0;
  the only step used is the positive constant \<open>SEGMENT_MS\<close>).
\<close>

function py_range :: "nat \<Rightarrow> nat \<Rightarrow> nat \<Rightarrow> nat list" where
  "py_range start stop step =
     (if step = 0 \<or> stop \<le> start then [] else start # py_range (start + step) stop step)"
  by pat_completeness auto
termination
  by (relation "measure (\<lambda>(start, stop, step). stop - start)") auto

declare py_range.simps [simp del]

text \<open>
  The length of the slice \<^verbatim>\<open>audio[start:end]\<close> of an audio of \<open>d\<close> milliseconds: pydub
  clips the bounds to the audio.
\<close>

definition slice_len :: "nat \<Rightarrow> nat \<Rightarrow> nat \<Rightarrow> nat" where
  "slice_len d start end = min end d - min start d"

text \<open>The segments of an audio of \<open>d\<close> ms for a window \<open>w\<close>: index, start, length.\<close>

definition segments :: "nat \<Rightarrow> nat \<Rightarrow> (nat \<times> nat \<times> nat) list" where
  "segments d w =
     map (\<lambda>(i, start). (i, start, slice_len d start (start + w))) (enumerate 1 (py_range 0 d w))"

subsection \<open>transcribe_chunk and split_and_transcribe\<close>

text \<open>
  \<open>transcribe_chunk\<close> on the slice of segment \<open>i\<close>; it returns
  \<^verbatim>\<open>CHUNKS_DIR / f"{chunk_path.stem}.txt"\<close>, which for \<open>chunk_path i\<close> is \<open>part_txt i\<close>.
\<close>

definition transcribe_chunk :: "env \<Rightarrow> nat \<Rightarrow> string \<Rightarrow> string \<Rightarrow> world \<Rightarrow> (error + path) \<times> world" where
  "transcribe_chunk e i model lang st =
     (let st1 = st\<lparr>trace := trace st @ [Whisper i model lang]\<rparr> in
      case whisper e i model lang of
        Failed left \<Rightarrow> (Inl EngineFailure, write_opt (part_txt i) left st1)
      | Succeeded out \<Rightarrow> (Inr (part_txt i), write_opt (part_txt i) out st1))"

text \<open>
  The inner \<^verbatim>\<open>try\<close> block of one segment: transcribe, open the aggregate for appending (which
  creates it), open the segment transcript for reading in text mode (which fails when it is
  not there), read it (which fails when it is not UTF-8), append the stripped text and a
  line break (written as it is, as on every POSIX system). The block returns the value of
  the variable \<^verbatim>\<open>part_txt\<close> too, which the \<^verbatim>\<open>finally\<close> clause reads.
\<close>

definition try_segment :: "env \<Rightarrow> nat \<Rightarrow> string \<Rightarrow> string \<Rightarrow> world \<Rightarrow> (error + unit) \<times> path \<times> world" where
  "try_segment e i model lang st =
     (case transcribe_chunk e i model lang st of
        (Inl err, st1) \<Rightarrow> (Inl err, part_txt i, st1)
      | (Inr p, st1) \<Rightarrow>
          (let old = (case fs st1 full_txt of None \<Rightarrow> [] | Some b \<Rightarrow> b);
               st2 = st1\<lparr>fs := (fs st1)(full_txt \<mapsto> old)\<rparr>
           in case fs st2 p of
                None \<Rightarrow> (Inl IOFailure, p, st2)
              | Some b \<Rightarrow>
                  (case read_text b of
                     None \<Rightarrow> (Inl DecodeFailure, p, st2)
                   | Some t \<Rightarrow>
                       (Inr (), p, st2\<lparr>fs := (fs st2)(full_txt \<mapsto> old @ strip t @ ''\<newline>'')\<rparr>))))"

text \<open>
  One iteration of the loop: export the slice (outside the inner \<^verbatim>\<open>try\<close>), then the
  \<^verbatim>\<open>try\<close> block, then its \<^verbatim>\<open>finally\<close> clause.
\<close>

definition process_segment :: "env \<Rightarrow> string \<Rightarrow> string \<Rightarrow> nat \<Rightarrow> nat \<Rightarrow> nat \<Rightarrow> world \<Rightarrow> (error + unit) \<times> world" where
  "process_segment e model lang d i start st =
     (let st0 = st\<lparr>trace := trace st @ [Export i start (slice_len d start (start + SEGMENT_MS))]\<rparr> in
      case export_mp3 e i of
        ExportFailed left \<Rightarrow> (Inl IOFailure, write_opt (chunk_path i) left st0)
      | Exported \<Rightarrow>
          (let st1 = st0\<lparr>fs := (fs st0)(chunk_path i \<mapsto> encode e start (slice_len d start (start + SEGMENT_MS)))\<rparr>;
               (r, p, st2) = try_segment e i model lang st1
           in (r, unlink p (unlink (chunk_path i) st2))))"

fun for_segments :: "env \<Rightarrow> string \<Rightarrow> string \<Rightarrow> nat \<Rightarrow> (nat \<times> nat) list \<Rightarrow> world \<Rightarrow> (error + unit) \<times> world" where
  "for_segments e model lang d [] st = (Inr (), st)"
| "for_segments e model lang d ((i, start) # rest) st =
     (case process_segment e model lang d i start st of
        (Inl err, st1) \<Rightarrow> (Inl err, st1)
      | (Inr u, st1) \<Rightarrow> for_segments e model lang d rest st1)"

definition from_file :: "env \<Rightarrow> world \<Rightarrow> error + nat" where
  "from_file e st =
     (case fs st file_path of
        None \<Rightarrow> Inl IOFailure
      | Some b \<Rightarrow> (case decode e b of None \<Rightarrow> Inl IOFailure | Some d \<Rightarrow> Inr d))"

text \<open>
  The whole function: remove the old aggregate, run the outer \<^verbatim>\<open>try\<close> block, and in its
  \<^verbatim>\<open>finally\<close> clause remove the source. Creating the two directories and printing are left
  out.
\<close>

definition split_and_transcribe :: "env \<Rightarrow> string \<Rightarrow> string \<Rightarrow> world \<Rightarrow> (error + path) \<times> world" where
  "split_and_transcribe e model language st =
     (let st1 = unlink full_txt st;
          (r, st2) = (case from_file e st1 of
                        Inl err \<Rightarrow> (Inl err, st1)
                      | Inr d \<Rightarrow> for_segments e model language d (enumerate 1 (py_range 0 d SEGMENT_MS)) st1);
          st3 = unlink file_path st2
      in case r of Inl err \<Rightarrow> (Inl err, st3) | Inr u \<Rightarrow> (Inr full_txt, st3))"

subsection \<open>Segment transcripts, exported segments, scenarios\<close>

text \<open>The transcript of segment \<open>i\<close> as the loop reads it: the text of what the engine
  wrote, or, when the engine ended well without writing, of what file system \<open>f\<close> holds at
  \<open>part_txt i\<close>; \<open>None\<close> when the engine failed, the file is missing or it is not UTF-8.\<close>

definition segment_transcript :: "env \<Rightarrow> string \<Rightarrow> string \<Rightarrow> filesystem \<Rightarrow> nat \<Rightarrow> string option" where
  "segment_transcript e model lang f i =
     (case whisper e i model lang of
        Succeeded out \<Rightarrow>
          (case (case out of Some b \<Rightarrow> Some b | None \<Rightarrow> f (part_txt i)) of
             None \<Rightarrow> None
           | Some b \<Rightarrow> read_text b)
      | Failed left \<Rightarrow> None)"

text \<open>The segments that a trace exports: index, start and length of every \<open>Export\<close>.\<close>

fun exported :: "event list \<Rightarrow> (nat \<times> nat \<times> nat) list" where
  "exported [] = []"
| "exported (Export i start len # tr) = (i, start, len) # exported tr"
| "exported (Whisper i model lang # tr) = exported tr"

text \<open>An upload waiting to be transcribed, and collaborators for a 25-minute source: all goes
  well; the engine fails on segment 2; every export fails leaving an empty file; the source
  is empty; the source cannot be decoded.\<close>

definition world_upload :: world where
  "world_upload = \<lparr>fs = (\<lambda>p. None)(file_path \<mapsto> ''RIFF''), trace = []\<rparr>"

definition env_25min :: env where
  "env_25min =
     \<lparr>decode = (\<lambda>b. Some 1500000), encode = (\<lambda>start len. ''ID3''), export_mp3 = (\<lambda>i. Exported),
      whisper = (\<lambda>i model lang.
        if i = 1 then Succeeded (Some '' first '')
        else if i = 2 then Succeeded (Some ''second\<newline>'')
        else Succeeded (Some ''third''))\<rparr>"

definition env_second_fails :: env where
  "env_second_fails = env_25min\<lparr>whisper := (\<lambda>i model lang.
        if i = 2 then Failed (Some ''partial'') else Succeeded (Some '' first ''))\<rparr>"

definition env_export_fails :: env where
  "env_export_fails = env_25min\<lparr>export_mp3 := (\<lambda>i. ExportFailed (Some []))\<rparr>"

definition env_zero :: env where
  "env_zero = env_25min\<lparr>decode := (\<lambda>b. Some 0)\<rparr>"

definition env_unreadable :: env where
  "env_unreadable = env_25min\<lparr>decode := (\<lambda>b. None)\<rparr>"

section \<open>portfolio_generator.py\<close>

subsection \<open>String operations\<close>

text \<open>\<^verbatim>\<open>s.find(sub)\<close>, with \<open>None\<close> for Python's \<open>-1\<close>, and \<^verbatim>\<open>sub in s\<close>.\<close>

fun py_find :: "string \<Rightarrow> string \<Rightarrow> nat option" where
  "py_find sub [] = (if sub = [] then Some 0 else None)"
| "py_find sub (c # cs) =
     (if prefix sub (c # cs) then Some 0 else map_option Suc (py_find sub cs))"

definition py_in :: "string \<Rightarrow> string \<Rightarrow> bool" where
  "py_in sub s = (py_find sub s \<noteq> None)"

subsection \<open>The markup tree\<close>

text \<open>
  The tree that BeautifulSoup builds, as far as the two functions look at it: strings and
  tags with a name and children. Attributes, comments and declarations are not modelled.
  The library itself is not part of the program: parsing and serialising are parameters of
  the functions below (\<^verbatim>\<open>BeautifulSoup(html, "html.parser")\<close> and \<^verbatim>\<open>str(soup)\<close>).
\<close>

datatype node = NavigableString string | Tag string "node list"

record markup =
  parse :: "string \<Rightarrow> node list"
  serialize :: "node list \<Rightarrow> string"

subsection \<open>sanitize_html\<close>

definition FENCE_HTML :: string where
  "FENCE_HTML = [CHR 0x60, CHR 0x60, CHR 0x60] @ ''html''"

definition FENCE :: string where
  "FENCE = [CHR 0x60, CHR 0x60, CHR 0x60]"

text \<open>\<^verbatim>\<open>tag.replace("```html", "").replace("```", "")\<close>\<close>

definition strip_fences :: "string \<Rightarrow> string" where
  "strip_fences t = py_replace FENCE [] (py_replace FENCE_HTML [] t)"

text \<open>
  The loop over \<^verbatim>\<open>soup(text=lambda t: isinstance(t, str) and "```" in t)\<close>: every string of
  the tree that contains a fence is replaced by its stripped version, in place.
\<close>

fun sanitize_node :: "node \<Rightarrow> node" where
  "sanitize_node (NavigableString t) =
     NavigableString (if py_in FENCE t then strip_fences t else t)"
| "sanitize_node (Tag name children) = Tag name (map sanitize_node children)"

definition sanitize_html :: "markup \<Rightarrow> string \<Rightarrow> string" where
  "sanitize_html lib raw_html = serialize lib (map sanitize_node (parse lib raw_html))"

subsection \<open>deduplicate_sections\<close>

text \<open>\<^verbatim>\<open>tag.text\<close>: all strings below the tag, concatenated in document order.\<close>

fun get_text :: "node \<Rightarrow> string" where
  "get_text (NavigableString t) = t"
| "get_text (Tag name children) = concat (map get_text children)"

text \<open>\<^verbatim>\<open>tag.find(name)\<close> on the children of a tag: the first descendant tag of that name, in document order.\<close>

fun find_tag :: "string \<Rightarrow> node list \<Rightarrow> node option" where
  "find_tag nm [] = None"
| "find_tag nm (NavigableString t # ns) = find_tag nm ns"
| "find_tag nm (Tag name children # ns) =
     (if name = nm then Some (Tag name children)
      else case find_tag nm children of Some h \<Rightarrow> Some h | None \<Rightarrow> find_tag nm ns)"

text \<open>
  The loop of \<open>deduplicate_sections\<close>, as one walk over the tree in document order, which
  is the order of \<^verbatim>\<open>soup.find_all("section")\<close>. The walk carries the set \<open>seen\<close>. A section
  with an \<^verbatim>\<open>h2\<close> whose title was seen is decomposed: it disappears with everything below
  it, and the sections below it, which the loop still visits, have lost their content,
  so that \<^verbatim>\<open>find("h2")\<close> finds nothing there and they leave \<open>seen\<close> alone; the walk
  therefore skips the whole subtree. Any other tag is kept and the walk goes on below it.
\<close>

fun dedup :: "string set \<Rightarrow> node list \<Rightarrow> node list \<times> string set" where
  "dedup seen [] = ([], seen)"
| "dedup seen (NavigableString t # ns) =
     (let (ns', seen') = dedup seen ns in (NavigableString t # ns', seen'))"
| "dedup seen (Tag name children # ns) =
     (case (if name = ''section'' then find_tag ''h2'' children else None) of
        Some h2 \<Rightarrow>
          (let title = strip (get_text h2) in
           if title \<in> seen then dedup seen ns
           else
             (let (children', seen1) = dedup (insert title seen) children;
                  (ns', seen2) = dedup seen1 ns
              in (Tag name children' # ns', seen2)))
      | None \<Rightarrow>
          (let (children', seen1) = dedup seen children;
               (ns', seen2) = dedup seen1 ns
           in (Tag name children' # ns', seen2)))"

definition deduplicate_sections :: "markup \<Rightarrow> string \<Rightarrow> string" where
  "deduplicate_sections lib html = serialize lib (fst (dedup {} (parse lib html)))"

subsection \<open>A model of the markup library on simple markup\<close>

text \<open>
  To evaluate the two functions on concrete fragments, the library is modelled on simple
  markup: text, the character references \<^verbatim>\<open>&amp;\<close>, \<^verbatim>\<open>&lt;\<close> and \<^verbatim>\<open>&gt;\<close>, start tags
  \<^verbatim>\<open><name>\<close> and end tags \<^verbatim>\<open></name>\<close> whose name is made of lower-case letters and digits.
  On such input the model follows \<^verbatim>\<open>html.parser\<close> and the tree builder of BeautifulSoup:
  \<^item> a run of text between two tags is one string; a string made of ASCII white space only
    is replaced by one line break if it holds one, else by one space, unless it is below
    \<^verbatim>\<open>pre\<close> or \<^verbatim>\<open>textarea\<close>;
  \<^item> a void element (\<^verbatim>\<open>br\<close>, \<^verbatim>\<open>hr\<close>, \<^verbatim>\<open>img\<close>, ...) is closed as soon as it is opened;
  \<^item> an end tag closes every tag opened since the last open tag of its name, and is
    dropped when no tag of its name is open; what is still open at the end is closed there;
  \<^item> serialising writes \<^verbatim>\<open><name/>\<close> for a void element without children,
    \<^verbatim>\<open><name>...</name>\<close> otherwise, and strings with \<^verbatim>\<open>&\<close>, \<^verbatim>\<open><\<close>, \<^verbatim>\<open>>\<close> escaped.
  Any other use of \<^verbatim>\<open><\<close> or \<^verbatim>\<open>&\<close> (attributes, comments, declarations, upper-case names,
  other references) is outside the model, which keeps the character as text there.
\<close>

datatype token = Data string | StartTag string | EndTag string

definition is_name_char :: "char \<Rightarrow> bool" where
  "is_name_char c = (c \<in> set ''abcdefghijklmnopqrstuvwxyz0123456789'')"

definition is_name_start :: "char \<Rightarrow> bool" where
  "is_name_start c = (c \<in> set ''abcdefghijklmnopqrstuvwxyz'')"

text \<open>A name followed by \<^verbatim>\<open>>\<close> at the start of the text: the name, if there is one.\<close>

definition name_gt :: "string \<Rightarrow> string option" where
  "name_gt s =
     (let name = takeWhile is_name_char s in
      case (name, drop (length name) s) of
        (c # cs, CHR ''>'' # rest) \<Rightarrow> if is_name_start c then Some name else None
      | _ \<Rightarrow> None)"

text \<open>The token at the start of the text and the number of characters it takes.\<close>

definition token_at :: "string \<Rightarrow> (token \<times> nat) option" where
  "token_at s =
     (case s of
        CHR ''<'' # CHR ''/'' # r \<Rightarrow>
          (case name_gt r of Some name \<Rightarrow> Some (EndTag name, length name + 3) | None \<Rightarrow> None)
      | CHR ''<'' # r \<Rightarrow>
          (case name_gt r of Some name \<Rightarrow> Some (StartTag name, length name + 2) | None \<Rightarrow> None)
      | _ \<Rightarrow>
          if prefix ''&amp;'' s then Some (Data ''&'', 5)
          else if prefix ''&lt;'' s then Some (Data ''<'', 4)
          else if prefix ''&gt;'' s then Some (Data ''>'', 4)
          else None)"

function tokenize :: "string \<Rightarrow> token list" where
  "tokenize s =
     (case s of
        [] \<Rightarrow> []
      | c # cs \<Rightarrow>
          (case token_at s of
             Some (t, n) \<Rightarrow> if n = 0 then Data [c] # tokenize cs else t # tokenize (drop n s)
           | None \<Rightarrow> Data [c] # tokenize cs))"
  by pat_completeness auto
termination
  by (relation "measure length") auto

declare tokenize.simps [simp del]

definition VOID_TAGS :: "string list" where
  "VOID_TAGS =
     [''area'', ''base'', ''br'', ''col'', ''embed'', ''hr'', ''img'', ''input'', ''keygen'',
      ''link'', ''menuitem'', ''meta'', ''param'', ''source'', ''track'', ''wbr'',
      ''basefont'', ''bgsound'', ''command'', ''frame'', ''image'', ''isindex'', ''nextid'',
      ''spacer'']"

definition ASCII_SPACES :: string where
  "ASCII_SPACES = [CHR 0x20, CHR 0x0A, CHR 0x09, CHR 0x0C, CHR 0x0D]"

text \<open>
  The tree builder. The stack holds the open tags, innermost first, each with the children
  it has so far, last child first; its last entry is the document itself.
\<close>

type_synonym tag_stack = "(string \<times> node list) list"

definition add_child :: "node \<Rightarrow> tag_stack \<Rightarrow> tag_stack" where
  "add_child n st = (case st of [] \<Rightarrow> [] | (name, cs) # rest \<Rightarrow> (name, n # cs) # rest)"

definition end_data :: "string \<Rightarrow> tag_stack \<Rightarrow> tag_stack" where
  "end_data d st =
     (if d = [] then st
      else if (\<forall>c \<in> set d. c \<in> set ASCII_SPACES)
              \<and> \<not> (\<exists>name \<in> set (map fst st). name \<in> {''pre'', ''textarea''})
      then add_child (NavigableString (if CHR 0x0A \<in> set d then [CHR 0x0A] else [CHR 0x20])) st
      else add_child (NavigableString d) st)"

fun pop_to_tag :: "string \<Rightarrow> tag_stack \<Rightarrow> tag_stack" where
  "pop_to_tag nm ((name, cs) # (parent, ps) # rest) =
     (if name = nm then (parent, Tag name (rev cs) # ps) # rest
      else pop_to_tag nm ((parent, Tag name (rev cs) # ps) # rest))"
| "pop_to_tag nm st = st"

fun close_all :: "tag_stack \<Rightarrow> node list" where
  "close_all ((name, cs) # (parent, ps) # rest) = close_all ((parent, Tag name (rev cs) # ps) # rest)"
| "close_all [(name, cs)] = rev cs"
| "close_all [] = []"

fun build :: "token list \<Rightarrow> string \<Rightarrow> tag_stack \<Rightarrow> node list" where
  "build [] d st = close_all (end_data d st)"
| "build (Data t # ts) d st = build ts (d @ t) st"
| "build (StartTag name # ts) d st =
     (if name \<in> set VOID_TAGS then build ts [] (add_child (Tag name []) (end_data d st))
      else build ts [] ((name, []) # end_data d st))"
| "build (EndTag name # ts) d st =
     (if name \<in> set (map fst (butlast st)) then build ts [] (pop_to_tag name (end_data d st))
      else build ts [] (end_data d st))"

definition html_parser :: "string \<Rightarrow> node list" where
  "html_parser s = build (tokenize s) [] [(''[document]'', [])]"

definition escape :: "string \<Rightarrow> string" where
  "escape t = py_replace ''>'' ''&gt;'' (py_replace ''<'' ''&lt;'' (py_replace ''&'' ''&amp;'' t))"

fun decode_node :: "node \<Rightarrow> string" where
  "decode_node (NavigableString t) = escape t"
| "decode_node (Tag name children) =
     (if children = [] \<and> name \<in> set VOID_TAGS then ''<'' @ name @ ''/>''
      else ''<'' @ name @ ''>'' @ concat (map decode_node children) @ ''</'' @ name @ ''>'')"

definition bs4 :: markup where
  "bs4 = \<lparr>parse = html_parser, serialize = (\<lambda>soup. concat (map decode_node soup))\<rparr>"

subsection \<open>generate_portfolio\<close>

text \<open>
  The collaborators of \<open>generate_portfolio\<close>: the files it loads (\<open>None\<close> when
  \<^verbatim>\<open>os.path.isfile\<close> is false), \<open>download_model\<close> and the construction of \<^verbatim>\<open>Llama\<close> (\<open>None\<close>
  when they raise), the call of the model on a prompt (the stripped text of its first
  choice comes from \<open>Some\<close> of the raw text), the PDF renderer on the page (\<open>None\<close> when
  it raises), and the markup library.
\<close>

datatype exn = ValueError | IOError | DownloadError | ModelError | GenerationError

record collaborators =
  files :: "string \<Rightarrow> string option"
  download_model :: "string option"
  load_llama :: "string \<Rightarrow> unit option"
  llm :: "string \<Rightarrow> string option"
  write_pdf :: "string \<Rightarrow> string option"
  html_lib :: markup

definition PROMPT_TEMPLATE :: string where
  "PROMPT_TEMPLATE = ''prompt_template.txt''"

definition LAYOUT_TEMPLATE :: string where
  "LAYOUT_TEMPLATE = ''layout.html''"

text \<open>The marker \<^verbatim>\<open>"\<close>Shag 2\<^verbatim>\<open>"\<close> of the prompt template, in Cyrillic letters, as UTF-8.\<close>

definition STEP2 :: string where
  "STEP2 = [CHR 0xD0, CHR 0xA8, CHR 0xD0, CHR 0xB0, CHR 0xD0, CHR 0xB3, CHR 0x20, CHR ''2'']"

definition load_text :: "collaborators \<Rightarrow> string \<Rightarrow> exn + string" where
  "load_text c path = (case files c path of None \<Rightarrow> Inl IOError | Some t \<Rightarrow> Inr t)"

text \<open>Lines 78 to 85: cut the template after the line of the marker, fill in the text.\<close>

definition make_prompt :: "string \<Rightarrow> string \<Rightarrow> string" where
  "make_prompt prompt_tpl presentation =
     (let tpl1 = (case py_find STEP2 prompt_tpl of
                    None \<Rightarrow> prompt_tpl
                  | Some step2_idx \<Rightarrow>
                      (let t = drop step2_idx prompt_tpl in
                       case py_find [CHR 0x0A] t of
                         None \<Rightarrow> t
                       | Some newline_idx \<Rightarrow> drop (newline_idx + 1) t))
      in py_replace ''{self_presentation}'' presentation tpl1)"

text \<open>
  Lines 113 to 122: an answer that starts with a brace is a request for clarification
  unless it holds a section, in which case the text before the first section is dropped.
\<close>

definition extract_fragment :: "string \<Rightarrow> exn + string" where
  "extract_fragment generated =
     (if prefix ''{'' (lstrip generated) \<and> \<not> py_in ''<section'' generated then Inl ValueError
      else if prefix ''{'' (lstrip generated) \<and> py_in ''<section'' generated then
        (case py_find ''<section'' generated of
           None \<Rightarrow> Inl ValueError
         | Some i \<Rightarrow> Inr (drop i generated))
      else Inr generated)"

definition generate_portfolio :: "collaborators \<Rightarrow> string \<Rightarrow> exn + (string \<times> string)" where
  "generate_portfolio c presentation =
     (if presentation = [] \<or> strip presentation = [] then Inl ValueError
      else
       (case load_text c PROMPT_TEMPLATE of
          Inl e \<Rightarrow> Inl e
        | Inr prompt_tpl \<Rightarrow>
       (case load_text c LAYOUT_TEMPLATE of
          Inl e \<Rightarrow> Inl e
        | Inr layout_tpl \<Rightarrow>
       (let prompt = make_prompt prompt_tpl presentation in
       (case download_model c of
          None \<Rightarrow> Inl DownloadError
        | Some model_path \<Rightarrow>
       (case load_llama c model_path of
          None \<Rightarrow> Inl ModelError
        | Some u \<Rightarrow>
       (case llm c prompt of
          None \<Rightarrow> Inl GenerationError
        | Some text \<Rightarrow>
       (case extract_fragment (strip text) of
          Inl e \<Rightarrow> Inl e
        | Inr generated \<Rightarrow>
       (let clean_html = sanitize_html (html_lib c) generated;
            deduped_html = deduplicate_sections (html_lib c) clean_html;
            full_html = py_replace ''{{content}}'' deduped_html layout_tpl;
            pdf_bytes = (case write_pdf c full_html of None \<Rightarrow> [] | Some b \<Rightarrow> b)
        in Inr (full_html, pdf_bytes))))))))))"

subsection \<open>Fragments and collaborators for the scenarios\<close>

definition fence_example :: string where
  "fence_example = FENCE_HTML @ [CHR 0x0A] @ ''<section><h2>Skills</h2>X</section>'' @ FENCE"

definition blank_line_example :: string where
  "blank_line_example = FENCE_HTML @ [CHR 0x0A, CHR 0x0A] @ ''<p>x</p>''"

definition abacb_example :: string where
  "abacb_example =
     ''<section><h2>A</h2>1</section><section><h2> B</h2>2</section><section><h2>A</h2>3</section>'' @
     ''<section><h2>C</h2>4</section><section><h2>B </h2>5</section>''"

definition nested_example :: string where
  "nested_example =
     ''<section><h2>A</h2>1</section><section><h2>A</h2>2<section><h2>B</h2>3</section></section>'' @
     ''<section><h2>B</h2>4</section>''"

definition studio :: collaborators where
  "studio =
     \<lparr>files = (\<lambda>path. if path = PROMPT_TEMPLATE then Some ''Make sections for: {self_presentation}''
                      else if path = LAYOUT_TEMPLATE then Some ''<main>{{content}}</main>''
                      else None),
      download_model = Some ''models/model.gguf'',
      load_llama = (\<lambda>path. Some ()),
      llm = (\<lambda>prompt. Some fence_example),
      write_pdf = (\<lambda>html. Some ''%PDF''),
      html_lib = bs4\<rparr>"

definition studio_pdf_fails :: collaborators where
  "studio_pdf_fails = studio\<lparr>write_pdf := (\<lambda>html. None)\<rparr>"

subsection \<open>Notions used in the properties\<close>

text \<open>The strings of a tree in document order, and the tree with its strings emptied.\<close>

fun strings :: "node \<Rightarrow> string list" where
  "strings (NavigableString t) = [t]"
| "strings (Tag name children) = concat (map strings children)"

fun shape :: "node \<Rightarrow> node" where
  "shape (NavigableString t) = NavigableString []"
| "shape (Tag name children) = Tag name (map shape children)"

text \<open>\<^verbatim>\<open>soup.find_all("section")\<close>: the section tags in document order.\<close>

fun sections :: "node list \<Rightarrow> node list" where
  "sections [] = []"
| "sections (NavigableString t # ns) = sections ns"
| "sections (Tag name children # ns) =
     (if name = ''section'' then [Tag name children] else []) @ sections children @ sections ns"

text \<open>The key of a section: the stripped text of its first \<^verbatim>\<open>h2\<close>, if it has one.\<close>

fun dedup_key :: "node \<Rightarrow> string option" where
  "dedup_key (NavigableString t) = None"
| "dedup_key (Tag name children) = map_option (\<lambda>h2. strip (get_text h2)) (find_tag ''h2'' children)"

text \<open>
  The rule of the specification on the list of the sections: the section at position \<open>k\<close>
  stays when it has no key, or when no section before it has its key.
\<close>

definition first_of_key :: "node list \<Rightarrow> node list" where
  "first_of_key ss =
     map (\<lambda>k. ss ! k)
       (filter (\<lambda>k. dedup_key (ss ! k) = None \<or> dedup_key (ss ! k) \<notin> set (map dedup_key (take k ss)))
          [0..<length ss])"

text \<open>The tree outside its sections, and the trees in which no section lies within another.\<close>

fun without_sections :: "node list \<Rightarrow> node list" where
  "without_sections [] = []"
| "without_sections (NavigableString t # ns) = NavigableString t # without_sections ns"
| "without_sections (Tag name children # ns) =
     (if name = ''section'' then without_sections ns
      else Tag name (without_sections children) # without_sections ns)"

fun no_nested_section :: "node list \<Rightarrow> bool" where
  "no_nested_section [] = True"
| "no_nested_section (NavigableString t # ns) = no_nested_section ns"
| "no_nested_section (Tag name children # ns) =
     ((if name = ''section'' then sections children = [] else no_nested_section children)
      \<and> no_nested_section ns)"

text \<open>The number of leading characters \<open>c\<close> of a string.\<close>

definition lead :: "char \<Rightarrow> string \<Rightarrow> nat" where
  "lead c s = length (takeWhile (\<lambda>x. x = c) s)"

text \<open>The rule of the specification as a walk over the list of the sections, with the set of
  the keys seen so far, and the keys of a list of sections.\<close>

fun keep_first :: "string set \<Rightarrow> node list \<Rightarrow> node list" where
  "keep_first seen [] = []"
| "keep_first seen (s # ss) =
     (case dedup_key s of
        None \<Rightarrow> s # keep_first seen ss
      | Some k \<Rightarrow> if k \<in> seen then keep_first seen ss else s # keep_first (insert k seen) ss)"

definition keys :: "node list \<Rightarrow> string set" where
  "keys ss = {k. Some k \<in> dedup_key ` set ss}"

section \<open>Properties of split_and_transcribe\<close>

lemma process_segment_file_path:
  "process_segment e m l d i start st = (r, st') \<Longrightarrow> fs st' file_path = fs st file_path"
  by (auto simp: process_segment_def try_segment_def transcribe_chunk_def write_opt_def unlink_def Let_def
      split: export_outcome.splits engine_outcome.splits option.splits prod.splits sum.splits)

lemma process_segment_part:
  "process_segment e m l d i start st = (r, st') \<Longrightarrow>
   fs st' (part_txt j) = (if j = i \<and> export_mp3 e i = Exported then None else fs st (part_txt j))"
  by (auto simp: process_segment_def try_segment_def transcribe_chunk_def write_opt_def unlink_def Let_def
      split: export_outcome.splits engine_outcome.splits option.splits prod.splits sum.splits)

lemma process_segment_chunk:
  "process_segment e m l d i start st = (r, st') \<Longrightarrow>
   fs st' (chunk_path j) =
     (if j = i then (case export_mp3 e i of Exported \<Rightarrow> None
                     | ExportFailed left \<Rightarrow> (case left of None \<Rightarrow> fs st (chunk_path i) | Some b \<Rightarrow> Some b))
      else fs st (chunk_path j))"
  by (auto simp: process_segment_def try_segment_def transcribe_chunk_def write_opt_def unlink_def Let_def
      split: export_outcome.splits engine_outcome.splits option.splits prod.splits sum.splits)

lemma process_segment_success:
  assumes "process_segment e m l d i start st = (Inr u, st')"
  shows "\<exists>t. segment_transcript e m l (fs st) i = Some t \<and>
             fs st' full_txt = Some ((case fs st full_txt of None \<Rightarrow> [] | Some b \<Rightarrow> b) @ strip t @ ''\<newline>'')"
  using assms
  by (auto simp: process_segment_def try_segment_def transcribe_chunk_def write_opt_def unlink_def Let_def
      segment_transcript_def
      split: export_outcome.splits engine_outcome.splits option.splits prod.splits sum.splits)

lemma segment_transcript_cong:
  "f (part_txt i) = g (part_txt i) \<Longrightarrow> segment_transcript e m l f i = segment_transcript e m l g i"
  by (simp add: segment_transcript_def split: engine_outcome.splits option.splits)

lemma for_segments_success:
  "for_segments e m l d xs st = (Inr u, st') \<Longrightarrow> distinct (map fst xs) \<Longrightarrow>
   \<exists>ts. map (\<lambda>x. segment_transcript e m l (fs st) (fst x)) xs = map Some ts \<and>
        fs st' full_txt =
          (if xs = [] then fs st full_txt
           else Some ((case fs st full_txt of None \<Rightarrow> [] | Some b \<Rightarrow> b) @ concat (map (\<lambda>t. strip t @ ''\<newline>'') ts)))"
proof (induction xs arbitrary: st)
  case Nil
  then show ?case by simp
next
  case (Cons x xs)
  obtain i start where x: "x = (i, start)" by (cases x)
  from Cons.prems(1) x obtain st1 where
    p: "process_segment e m l d i start st = (Inr (), st1)" and
    r: "for_segments e m l d xs st1 = (Inr u, st')"
    by (auto split: prod.splits sum.splits)
  from process_segment_success [OF p] obtain t where
    t: "segment_transcript e m l (fs st) i = Some t" and
    f1: "fs st1 full_txt = Some ((case fs st full_txt of None \<Rightarrow> [] | Some b \<Rightarrow> b) @ strip t @ ''\<newline>'')"
    by blast
  from Cons.prems(2) x have d: "distinct (map fst xs)" and ni: "i \<notin> fst ` set xs" by auto
  from Cons.IH [OF r d] obtain ts where
    ts: "map (\<lambda>x. segment_transcript e m l (fs st1) (fst x)) xs = map Some ts" and
    f': "fs st' full_txt =
          (if xs = [] then fs st1 full_txt
           else Some ((case fs st1 full_txt of None \<Rightarrow> [] | Some b \<Rightarrow> b) @ concat (map (\<lambda>t. strip t @ ''\<newline>'') ts)))"
    by blast
  have same: "map (\<lambda>x. segment_transcript e m l (fs st) (fst x)) xs
              = map (\<lambda>x. segment_transcript e m l (fs st1) (fst x)) xs"
  proof (rule map_cong [OF refl])
    fix y assume "y \<in> set xs"
    with ni have "fst y \<noteq> i" by auto
    with process_segment_part [OF p, of "fst y"]
    have "fs st1 (part_txt (fst y)) = fs st (part_txt (fst y))" by simp
    then show "segment_transcript e m l (fs st) (fst y) = segment_transcript e m l (fs st1) (fst y)"
      by (intro segment_transcript_cong) simp
  qed
  have len: "length ts = length xs" using ts by (metis length_map)
  have "map (\<lambda>x. segment_transcript e m l (fs st) (fst x)) (x # xs) = map Some (t # ts)"
    using t ts same x by simp
  moreover have "fs st' full_txt =
      Some ((case fs st full_txt of None \<Rightarrow> [] | Some b \<Rightarrow> b) @ concat (map (\<lambda>t. strip t @ ''\<newline>'') (t # ts)))"
    using f' f1 len by (cases xs) auto
  ultimately show ?case by (intro exI [of _ "t # ts"]) simp
qed

lemma for_segments_file_path:
  "for_segments e m l d xs st = (r, st') \<Longrightarrow> fs st' file_path = fs st file_path"
proof (induction xs arbitrary: st)
  case Nil then show ?case by simp
next
  case (Cons x xs)
  obtain i start where x: "x = (i, start)" by (cases x)
  show ?case using Cons.prems x Cons.IH process_segment_file_path
    by (fastforce split: prod.splits sum.splits)
qed

lemma py_range_empty: "stop \<le> start \<Longrightarrow> py_range start stop step = []"
  by (simp add: py_range.simps)

lemma div_add_w: "0 < (w::nat) \<Longrightarrow> (q + w) div w = Suc (q div w)"
  by (simp add: div_add_self2)

lemma div_step:
  fixes w :: nat
  assumes "0 < w" "s < d"
  shows "(d - s + w - 1) div w = Suc ((d - (s + w) + w - 1) div w)"
proof (cases "s + w \<le> d")
  case True
  define q where "q = d - (s + w) + w - 1"
  have e: "d - s + w - 1 = q + w" unfolding q_def using True assms by arith
  show ?thesis unfolding e q_def [symmetric] using assms(1) by (rule div_add_w)
next
  case False
  define q where "q = d - s - 1"
  have e: "d - s + w - 1 = q + w" unfolding q_def using assms by arith
  have l: "q < w" unfolding q_def using False assms by arith
  have a: "d - (s + w) + w - 1 = w - 1" using False by arith
  have "(q + w) div w = Suc (q div w)" using assms(1) by (rule div_add_w)
  then have "(d - s + w - 1) div w = 1" unfolding e using l by simp
  moreover have "(d - (s + w) + w - 1) div w = 0" unfolding a using assms(1) by simp
  ultimately show ?thesis by simp
qed

lemma upt_Suc_shift: "[0..<Suc n] = 0 # map Suc [0..<n]"
  by (simp only: map_Suc_upt upt_conv_Cons [of 0 "Suc n"])

lemma py_range_eq:
  "0 < w \<Longrightarrow> py_range s d w = map (\<lambda>k. s + k * w) [0..<(d - s + w - 1) div w]"
proof (induction s d w rule: py_range.induct)
  case (1 start stop step)
  show ?case
  proof (cases "stop \<le> start")
    case True
    then have "stop - start + step - 1 < step" using 1(2) by arith
    then have "(stop - start + step - 1) div step = 0" by simp
    with True show ?thesis by (simp add: py_range_empty)
  next
    case False
    then have lt: "start < stop" by simp
    define n where "n = (stop - (start + step) + step - 1) div step"
    have IH: "py_range (start + step) stop step = map (\<lambda>k. start + step + k * step) [0..<n]"
      unfolding n_def using 1 False by simp
    have "py_range start stop step = start # py_range (start + step) stop step"
      using False 1(2) by (subst py_range.simps) simp
    also have "\<dots> = map (\<lambda>k. start + k * step) (0 # map Suc [0..<n])"
      unfolding IH by (simp add: comp_def add.assoc)
    also have "\<dots> = map (\<lambda>k. start + k * step) [0..<Suc n]"
      by (simp only: upt_Suc_shift)
    finally show ?thesis unfolding n_def div_step [OF 1(2) lt, symmetric] .
  qed
qed

lemma length_py_range: "0 < w \<Longrightarrow> length (py_range 0 d w) = (d + w - 1) div w"
  by (simp add: py_range_eq)

lemma nth_py_range: "0 < w \<Longrightarrow> k < (d + w - 1) div w \<Longrightarrow> py_range 0 d w ! k = k * w"
  by (simp add: py_range_eq)

lemma length_segments: "0 < w \<Longrightarrow> length (segments d w) = (d + w - 1) div w"
  by (simp add: segments_def length_py_range)

lemma nth_segments:
  assumes "0 < w" "k < (d + w - 1) div w"
  shows "segments d w ! k = (Suc k, k * w, slice_len d (k * w) (k * w + w))"
proof -
  have k: "k < length (py_range 0 d w)" using assms by (simp only: length_py_range)
  have "segments d w ! k = (\<lambda>(i, start). (i, start, slice_len d start (start + w))) (enumerate 1 (py_range 0 d w) ! k)"
    unfolding segments_def using k by (intro nth_map) simp
  also have "enumerate 1 (py_range 0 d w) ! k = (1 + k, py_range 0 d w ! k)"
    using k by (rule nth_enumerate_eq)
  also have "py_range 0 d w ! k = k * w" using assms by (rule nth_py_range)
  finally show ?thesis by simp
qed

lemma exported_append: "exported (xs @ ys) = exported xs @ exported ys"
  by (induction xs rule: exported.induct) auto

lemma slice_len_inner:
  assumes "0 < w" "Suc k < (d + w - 1) div w"
  shows "slice_len d (k * w) (k * w + w) = w"
proof -
  have "Suc (Suc k) * w \<le> ((d + w - 1) div w) * w" using assms(2) by (intro mult_le_mono1) simp
  also have "\<dots> \<le> d + w - 1" by (simp add: div_times_less_eq_dividend)
  finally have "Suc k * w + w \<le> d + w - 1" by simp
  then have "k * w + w \<le> d" using assms(1) by simp
  then show ?thesis by (simp add: slice_len_def min_def)
qed

lemma slice_len_last:
  assumes "0 < w" "Suc k = (d + w - 1) div w"
  shows "slice_len d (k * w) (k * w + w) = (if d mod w = 0 then w else d mod w)"
proof -
  have "Suc k * w \<le> d + w - 1" unfolding assms(2) by (rule div_times_less_eq_dividend)
  then have lo: "k * w < d" using assms(1) by simp
  have "d + w - 1 < w + Suc k * w"
    unfolding assms(2) using assms(1) by (rule dividend_less_div_times)
  then have hi: "d \<le> k * w + w" using assms(1) by simp
  have sl: "slice_len d (k * w) (k * w + w) = d - k * w"
    using lo hi by (simp add: slice_len_def min_def)
  show ?thesis
  proof (cases "d = k * w + w")
    case True
    then have "d mod w = 0" by simp
    with sl True show ?thesis by simp
  next
    case False
    with hi assms(1) have lt: "d - k * w < w" by arith
    have "d = (d - k * w) + k * w" using lo by simp
    then have "d mod w = (d - k * w) mod w" by (metis mod_mult_self1 mult.commute)
    with lt have m: "d mod w = d - k * w" by simp
    with lo have "d mod w \<noteq> 0" by simp
    with sl m show ?thesis by simp
  qed
qed

lemma segments_partition:
  "0 < w \<Longrightarrow>
     length (segments d w) = (d + w - 1) div w
   \<and> (\<forall>k < length (segments d w).
        segments d w ! k =
          (Suc k, k * w,
           if Suc k < length (segments d w) then w else if d mod w = 0 then w else d mod w))
   \<and> (0 < d \<and> d < w \<longrightarrow> length (segments d w) = 1)
   \<and> (d = 0 \<longrightarrow> segments d w = [])"
proof (intro conjI allI impI)
  assume w: "0 < w"
  show len: "length (segments d w) = (d + w - 1) div w" using w by (rule length_segments)
  show "segments d w ! k =
          (Suc k, k * w,
           if Suc k < length (segments d w) then w else if d mod w = 0 then w else d mod w)"
    if "k < length (segments d w)" for k
  proof -
    from that len have k: "k < (d + w - 1) div w" by simp
    show ?thesis
    proof (cases "Suc k < (d + w - 1) div w")
      case True
      then show ?thesis using nth_segments [OF w k] slice_len_inner [OF w True] len by simp
    next
      case False
      with k have "Suc k = (d + w - 1) div w" by simp
      then show ?thesis using nth_segments [OF w k] slice_len_last [OF w] len by simp
    qed
  qed
  show "length (segments d w) = 1" if "0 < d \<and> d < w"
  proof -
    from that obtain q where "d = Suc q" "q < w" by (cases d) auto
    then have "d + w - 1 = q + w" by simp
    then have "(d + w - 1) div w = Suc (q div w)" using w by (simp add: div_add_w)
    with \<open>q < w\<close> len show ?thesis by simp
  qed
  show "segments d w = []" if "d = 0"
    using that by (simp add: segments_def py_range_empty)
qed

lemma process_segment_trace:
  "process_segment e m l d i start st = (r, st') \<Longrightarrow>
   trace st' = trace st @ Export i start (slice_len d start (start + SEGMENT_MS)) #
     (case export_mp3 e i of Exported \<Rightarrow> [Whisper i m l] | ExportFailed left \<Rightarrow> [])"
  by (auto simp: process_segment_def try_segment_def transcribe_chunk_def write_opt_def unlink_def Let_def
      split: export_outcome.splits engine_outcome.splits option.splits prod.splits sum.splits)

lemma process_segment_exported:
  "process_segment e m l d i start st = (Inr u, st') \<Longrightarrow> export_mp3 e i = Exported"
  by (auto simp: process_segment_def Let_def split: export_outcome.splits)

lemma for_segments_exported:
  "for_segments e m l d xs st = (Inr u, st') \<Longrightarrow>
   exported (trace st') =
     exported (trace st) @ map (\<lambda>(i, start). (i, start, slice_len d start (start + SEGMENT_MS))) xs"
proof (induction xs arbitrary: st)
  case Nil
  then show ?case by simp
next
  case (Cons x xs)
  obtain i start where x: "x = (i, start)" by (cases x)
  from Cons.prems x obtain st1 where
    p: "process_segment e m l d i start st = (Inr (), st1)" and
    r: "for_segments e m l d xs st1 = (Inr u, st')"
    by (auto split: prod.splits sum.splits)
  have "exported (trace st1) = exported (trace st) @ [(i, start, slice_len d start (start + SEGMENT_MS))]"
    using process_segment_trace [OF p] process_segment_exported [OF p] by (simp add: exported_append)
  with Cons.IH [OF r] x show ?case by simp
qed

lemma for_segments_part:
  "for_segments e m l d xs st = (r, st') \<Longrightarrow>
   fs st' (part_txt j) = None \<or> fs st' (part_txt j) = fs st (part_txt j)"
proof (induction xs arbitrary: st)
  case Nil then show ?case by simp
next
  case (Cons x xs)
  obtain i start where x: "x = (i, start)" by (cases x)
  obtain r1 st1 where p: "process_segment e m l d i start st = (r1, st1)" by force
  have s1: "fs st1 (part_txt j) = None \<or> fs st1 (part_txt j) = fs st (part_txt j)"
    using process_segment_part [OF p, of j] by auto
  show ?case
  proof (cases r1)
    case (Inl err)
    with Cons.prems x p s1 show ?thesis by auto
  next
    case (Inr u)
    with Cons.prems x p have "for_segments e m l d xs st1 = (r, st')" by simp
    from Cons.IH [OF this] s1 show ?thesis by auto
  qed
qed

lemma for_segments_chunk:
  assumes "\<forall>i b. export_mp3 e i \<noteq> ExportFailed (Some b)"
  shows "for_segments e m l d xs st = (r, st') \<Longrightarrow>
   fs st' (chunk_path j) = None \<or> fs st' (chunk_path j) = fs st (chunk_path j)"
proof (induction xs arbitrary: st)
  case Nil then show ?case by simp
next
  case (Cons x xs)
  obtain i start where x: "x = (i, start)" by (cases x)
  obtain r1 st1 where p: "process_segment e m l d i start st = (r1, st1)" by force
  have s1: "fs st1 (chunk_path j) = None \<or> fs st1 (chunk_path j) = fs st (chunk_path j)"
    using process_segment_chunk [OF p, of j] assms
    by (auto split: export_outcome.splits option.splits)
  show ?case
  proof (cases r1)
    case (Inl err)
    with Cons.prems x p s1 show ?thesis by auto
  next
    case (Inr u)
    with Cons.prems x p have "for_segments e m l d xs st1 = (r, st')" by simp
    from Cons.IH [OF this] s1 show ?thesis by auto
  qed
qed

lemma from_file_unlink_full: "from_file e (unlink full_txt st) = from_file e st"
  by (simp add: from_file_def unlink_def)

lemma split_and_transcribe_loop:
  assumes "from_file e st = Inr d"
    and "for_segments e model language d (enumerate 1 (py_range 0 d SEGMENT_MS)) (unlink full_txt st) = (r2, st2)"
  shows "split_and_transcribe e model language st =
        (case r2 of Inl err \<Rightarrow> Inl err | Inr u \<Rightarrow> Inr full_txt, unlink file_path st2)"
  using assms by (simp add: split_and_transcribe_def from_file_unlink_full split: sum.splits)

lemma split_and_transcribe_source_removed:
  "split_and_transcribe e model language st = (r, st') \<Longrightarrow> fs st' file_path = None"
  by (auto simp: split_and_transcribe_def unlink_def Let_def split: prod.splits sum.splits)

lemma split_and_transcribe_cleanup:
  assumes run: "split_and_transcribe e model language st = (r, st')"
    and clean: "\<forall>i b. export_mp3 e i \<noteq> ExportFailed (Some b)"
  shows "fs st' file_path = None
       \<and> (fs st' (chunk_path j) = None \<or> fs st' (chunk_path j) = fs st (chunk_path j))
       \<and> (fs st' (part_txt j) = None \<or> fs st' (part_txt j) = fs st (part_txt j))"
proof (cases "from_file e st")
  case (Inl err)
  have "split_and_transcribe e model language st = (Inl err, unlink file_path (unlink full_txt st))"
    by (simp add: split_and_transcribe_def from_file_unlink_full Inl)
  with run show ?thesis by (auto simp: unlink_def)
next
  case (Inr d)
  obtain r2 st2 where
    loop: "for_segments e model language d (enumerate 1 (py_range 0 d SEGMENT_MS)) (unlink full_txt st) = (r2, st2)"
    by force
  from split_and_transcribe_loop [OF Inr loop] run have st': "st' = unlink file_path st2" by simp
  from for_segments_chunk [OF clean loop, of j] for_segments_part [OF loop, of j] st'
  show ?thesis by (auto simp: unlink_def)
qed

text \<open>
  C3 (order of the transcript), as the code has it. A successful call returns the path of
  the aggregate file. For a source of positive duration every segment \<open>1, \<dots>, n\<close> had a
  transcript that could be read as UTF-8 text, and the aggregate file holds exactly the
  stripped texts as read, each followed by a line break, in the order of the segment
  indices. For a source of duration 0 the aggregate file does not exist.
\<close>

theorem split_and_transcribe_content:
  assumes run: "split_and_transcribe e model language st = (Inr p, st')"
    and dur: "from_file e st = Inr d"
  shows "p = full_txt
       \<and> (0 < d \<longrightarrow>
            (\<exists>ts. map (segment_transcript e model language (fs st)) [1..<Suc (length (segments d SEGMENT_MS))]
                    = map Some ts
                  \<and> fs st' p = Some (concat (map (\<lambda>t. strip t @ ''\<newline>'') ts))))
       \<and> (d = 0 \<longrightarrow> fs st' p = None)"
proof (intro conjI impI)
  let ?xs = "enumerate 1 (py_range 0 d SEGMENT_MS)"
  let ?st1 = "unlink full_txt st"
  obtain r2 st2 where loop: "for_segments e model language d ?xs ?st1 = (r2, st2)" by force
  from split_and_transcribe_loop [OF dur loop] run have r2: "r2 = Inr ()" and st': "st' = unlink file_path st2" and p: "p = full_txt"
    by (auto split: sum.splits)
  show "p = full_txt" by (rule p)
  show "fs st' p = None" if "d = 0"
  proof -
    from that have "?xs = []" by (simp add: py_range_empty)
    with loop have "st2 = ?st1" by simp
    with st' p show ?thesis by (simp add: unlink_def)
  qed
  assume pos: "0 < d"
  have w: "0 < SEGMENT_MS" by (simp add: SEGMENT_MS_def)
  have "length (py_range 0 d SEGMENT_MS) = (d + SEGMENT_MS - 1) div SEGMENT_MS"
    using w by (rule length_py_range)
  moreover have "SEGMENT_MS \<le> d + SEGMENT_MS - 1" using pos by simp
  then have "0 < (d + SEGMENT_MS - 1) div SEGMENT_MS" using w by (simp add: div_greater_zero_iff)
  ultimately have ne: "?xs \<noteq> []" by (auto simp: enumerate_eq_zip)
  have dist: "distinct (map fst ?xs)" by simp
  from for_segments_success [OF loop [unfolded r2] dist] ne obtain ts where
    ts: "map (\<lambda>x. segment_transcript e model language (fs ?st1) (fst x)) ?xs = map Some ts" and
    full: "fs st2 full_txt = Some ((case fs ?st1 full_txt of None \<Rightarrow> [] | Some b \<Rightarrow> b) @ concat (map (\<lambda>t. strip t @ ''\<newline>'') ts))"
    by auto
  have fsts: "map fst ?xs = [1..<Suc (length (segments d SEGMENT_MS))]"
    by (simp add: segments_def del: upt_Suc)
  have "map (segment_transcript e model language (fs st)) (map fst ?xs)
        = map (segment_transcript e model language (fs ?st1)) (map fst ?xs)"
    by (intro map_cong refl segment_transcript_cong) (simp add: unlink_def)
  also have "\<dots> = map (\<lambda>x. segment_transcript e model language (fs ?st1) (fst x)) ?xs"
    by (simp only: map_map comp_def)
  finally have "map (segment_transcript e model language (fs st)) [1..<Suc (length (segments d SEGMENT_MS))] = map Some ts"
    unfolding fsts ts .
  moreover have "fs st' p = Some (concat (map (\<lambda>t. strip t @ ''\<newline>'') ts))"
    using full st' p by (simp add: unlink_def)
  ultimately show "\<exists>ts. map (segment_transcript e model language (fs st)) [1..<Suc (length (segments d SEGMENT_MS))]
                    = map Some ts
                  \<and> fs st' p = Some (concat (map (\<lambda>t. strip t @ ''\<newline>'') ts))"
    by blast
qed

lemma py_range_25min: "py_range 0 1500000 SEGMENT_MS = [0, 600000, 1200000]"
  by (simp add: py_range.simps SEGMENT_MS_def)

lemma enumerate_3: "enumerate 1 [a, b, c] = [(1, a), (2, b), (3, c)]"
  by (simp add: numeral_2_eq_2 numeral_3_eq_3)

lemma segments_25min:
  "segments 1500000 SEGMENT_MS = [(1, 0, 600000), (2, 600000, 600000), (3, 1200000, 300000)]"
  by (simp add: segments_def py_range_25min enumerate_3 slice_len_def) (simp add: SEGMENT_MS_def)

text \<open>
  C4 (the 25-minute scenario), as the code has it. A source of 1500000 ms has the three
  segments of 10, 10 and 5 minutes. When the transcript of the first segment is read and
  the engine fails on the second, the call ends in \<open>EngineFailure\<close> and returns no
  transcript; the collaborators were called exactly four times (export and engine for
  segment 1, export and engine for segment 2), so there is no third segment and no second
  attempt; the slices and segment transcripts of segments 1 and 2 are gone, and so is the
  source. The aggregate file stays, and holds the stripped text of segment 1.
\<close>

theorem abort_at_second_segment:
  assumes "from_file e st = Inr 1500000"
    and "export_mp3 e 1 = Exported" and "export_mp3 e 2 = Exported"
    and "segment_transcript e model language (fs st) 1 = Some t1"
    and "whisper e 2 model language = Failed left"
    and "split_and_transcribe e model language st = (r, st')"
  shows "segments 1500000 SEGMENT_MS = [(1, 0, 600000), (2, 600000, 600000), (3, 1200000, 300000)]
       \<and> r = Inl EngineFailure
       \<and> trace st' = trace st @ [Export 1 0 600000, Whisper 1 model language,
                                 Export 2 600000 600000, Whisper 2 model language]
       \<and> fs st' (chunk_path 1) = None \<and> fs st' (part_txt 1) = None
       \<and> fs st' (chunk_path 2) = None \<and> fs st' (part_txt 2) = None
       \<and> fs st' file_path = None
       \<and> fs st' full_txt = Some (strip t1 @ [CHR 0x0A])"
proof -
  have sl: "slice_len 1500000 0 SEGMENT_MS = 600000"
           "slice_len 1500000 600000 (600000 + SEGMENT_MS) = 600000"
    by (simp_all add: slice_len_def SEGMENT_MS_def)
  let ?loop = "for_segments e model language 1500000 (enumerate 1 (py_range 0 1500000 SEGMENT_MS))
                 (unlink full_txt st)"
  have l: "fst ?loop = Inl EngineFailure
       \<and> trace (snd ?loop) = trace st @ [Export 1 0 600000, Whisper 1 model language,
                                 Export 2 600000 600000, Whisper 2 model language]
       \<and> fs (snd ?loop) (chunk_path 1) = None \<and> fs (snd ?loop) (part_txt 1) = None
       \<and> fs (snd ?loop) (chunk_path 2) = None \<and> fs (snd ?loop) (part_txt 2) = None
       \<and> fs (snd ?loop) full_txt = Some (strip t1 @ [CHR 0x0A])"
    using assms(2-5)
    by (auto simp: py_range_25min numeral_2_eq_2 segment_transcript_def
        process_segment_def try_segment_def transcribe_chunk_def write_opt_def unlink_def sl Let_def
        split: option.splits engine_outcome.splits)
  have "?loop = (fst ?loop, snd ?loop)" by simp
  from split_and_transcribe_loop [OF assms(1) this] assms(6) l
  have "r = Inl EngineFailure" and "st' = unlink file_path (snd ?loop)" by auto
  with l segments_25min show ?thesis by (simp add: unlink_def)
qed

lemma read_examples:
  "read_text '' first '' = Some '' first ''"
  "read_text ''second\<newline>'' = Some ''second\<newline>''"
  "read_text ''third'' = Some ''third''"
  by code_simp+

lemma run_25min:
  "fst (split_and_transcribe env_25min ''small'' ''Russian'' world_upload) = Inr full_txt"
  by (simp add: split_and_transcribe_def from_file_def unlink_def py_range_25min numeral_2_eq_2
      numeral_3_eq_3 process_segment_def try_segment_def transcribe_chunk_def write_opt_def Let_def
      read_examples env_25min_def world_upload_def)

theorem abort_at_second_segment_witness:
  "from_file env_second_fails world_upload = Inr 1500000
   \<and> whisper env_second_fails 2 ''small'' ''Russian'' = Failed (Some ''partial'')
   \<and> fst (split_and_transcribe env_second_fails ''small'' ''Russian'' world_upload) = Inl EngineFailure
   \<and> trace (snd (split_and_transcribe env_second_fails ''small'' ''Russian'' world_upload)) =
       [Export 1 0 600000, Whisper 1 ''small'' ''Russian'',
        Export 2 600000 600000, Whisper 2 ''small'' ''Russian'']
   \<and> fs (snd (split_and_transcribe env_second_fails ''small'' ''Russian'' world_upload)) (chunk_path 2) = None"
proof -
  let ?run = "split_and_transcribe env_second_fails ''small'' ''Russian'' world_upload"
  have a1: "from_file env_second_fails world_upload = Inr 1500000"
    by (simp add: from_file_def env_second_fails_def env_25min_def world_upload_def)
  have a2: "export_mp3 env_second_fails 1 = Exported" and a3: "export_mp3 env_second_fails 2 = Exported"
    by (simp_all add: env_second_fails_def env_25min_def)
  have a4: "segment_transcript env_second_fails ''small'' ''Russian'' (fs world_upload) 1 = Some '' first ''"
    by (simp add: segment_transcript_def read_examples env_second_fails_def env_25min_def)
  have a5: "whisper env_second_fails 2 ''small'' ''Russian'' = Failed (Some ''partial'')"
    by (simp add: env_second_fails_def)
  have a6: "?run = (fst ?run, snd ?run)" by simp
  from abort_at_second_segment [OF a1 a2 a3 a4 a5 a6] a1 a5 show ?thesis
    by (simp add: world_upload_def)
qed

lemma strip_examples:
  "strip '' first '' = ''first''" "strip ''second\<newline>'' = ''second''" "strip ''third'' = ''third''"
  by code_simp+

lemma indices_25min: "[1..<Suc (length (segments 1500000 SEGMENT_MS))] = [1, 2, 3]"
  by (simp add: segments_25min upt_rec numeral_2_eq_2 numeral_3_eq_3)

theorem split_and_transcribe_content_witness:
  "fst (split_and_transcribe env_25min ''small'' ''Russian'' world_upload) = Inr full_txt
   \<and> from_file env_25min world_upload = Inr 1500000
   \<and> fs (snd (split_and_transcribe env_25min ''small'' ''Russian'' world_upload)) full_txt
       = Some ''first\<newline>second\<newline>third\<newline>''
   \<and> fst (split_and_transcribe env_zero ''small'' ''Russian'' world_upload) = Inr full_txt
   \<and> from_file env_zero world_upload = Inr 0
   \<and> fs (snd (split_and_transcribe env_zero ''small'' ''Russian'' world_upload)) full_txt = None"
proof -
  let ?run = "split_and_transcribe env_25min ''small'' ''Russian'' world_upload"
  let ?zero = "split_and_transcribe env_zero ''small'' ''Russian'' world_upload"
  have d: "from_file env_25min world_upload = Inr 1500000"
    by (simp add: from_file_def env_25min_def world_upload_def)
  have r: "fst ?run = Inr full_txt"
    by (rule run_25min)
  then have run: "?run = (Inr full_txt, snd ?run)" by (metis prod.collapse)
  from split_and_transcribe_content [OF run d] obtain ts where
    ts: "map (segment_transcript env_25min ''small'' ''Russian'' (fs world_upload))
           [1..<Suc (length (segments 1500000 SEGMENT_MS))] = map Some ts"
    and c: "fs (snd ?run) full_txt = Some (concat (map (\<lambda>t. strip t @ ''\<newline>'') ts))"
    by auto
  from ts [unfolded indices_25min]
  have "map Some ts = [Some '' first '', Some ''second\<newline>'', Some ''third'']"
    by (simp add: segment_transcript_def read_examples env_25min_def)
  then have "ts = ['' first '', ''second\<newline>'', ''third'']" by auto
  with c have f: "fs (snd ?run) full_txt = Some ''first\<newline>second\<newline>third\<newline>''"
    by (simp add: strip_examples)
  have dz: "from_file env_zero world_upload = Inr 0"
    by (simp add: from_file_def env_zero_def world_upload_def)
  have rz: "fst ?zero = Inr full_txt"
    by (simp add: split_and_transcribe_def unlink_def from_file_def env_zero_def env_25min_def
        world_upload_def py_range_empty)
  then have zero: "?zero = (Inr full_txt, snd ?zero)" by (metis prod.collapse)
  from split_and_transcribe_content [OF zero dz] have z: "fs (snd ?zero) full_txt = None" by simp
  from r d f rz dz z show ?thesis by simp
qed

text \<open>
  C4 as stated fails in one point: the transcript of segment 1 is not discarded. The call
  returns no transcript, but the aggregate file, absent before the call, holds the text of
  segment 1 after the abort.
\<close>

theorem aggregate_kept_counterexample:
  "fs world_upload full_txt = None
   \<and> fst (split_and_transcribe env_second_fails ''small'' ''Russian'' world_upload) = Inl EngineFailure
   \<and> fs (snd (split_and_transcribe env_second_fails ''small'' ''Russian'' world_upload)) full_txt
       = Some ''first\<newline>''"
  by (simp add: split_and_transcribe_def from_file_def unlink_def py_range_25min numeral_2_eq_2
      numeral_3_eq_3 process_segment_def try_segment_def transcribe_chunk_def write_opt_def Let_def
      read_examples strip_examples env_second_fails_def env_25min_def world_upload_def)

lemma split_and_transcribe_exported:
  assumes run: "split_and_transcribe e model language st = (Inr p, st')"
    and dur: "from_file e st = Inr d"
  shows "exported (trace st') = exported (trace st) @ segments d SEGMENT_MS"
proof -
  let ?xs = "enumerate 1 (py_range 0 d SEGMENT_MS)"
  obtain r2 st2 where loop: "for_segments e model language d ?xs (unlink full_txt st) = (r2, st2)"
    by force
  from split_and_transcribe_loop [OF dur loop] run
  have r2: "r2 = Inr ()" and st': "st' = unlink file_path st2" by (auto split: sum.splits)
  from for_segments_exported [OF loop [unfolded r2]] st'
  show ?thesis by (simp add: segments_def unlink_def)
qed

text \<open>
  C2 (partition into windows), for a window \<open>w > 0\<close> and a duration \<open>d\<close>: there are
  \<open>\<lceil>d / w\<rceil>\<close> segments; segment \<open>k\<close> (from 0) has index \<open>k + 1\<close>, starts at \<open>k * w\<close>, and is
  \<open>w\<close> long, except the last one, which is \<open>d mod w\<close> long, or \<open>w\<close> when \<open>w\<close> divides \<open>d\<close>;
  a source of positive duration shorter than one window gives exactly one segment and a
  source of duration 0 gives none. A successful call on a source of duration \<open>d\<close> exports
  exactly these segments, in this order, for the window \<open>SEGMENT_MS\<close>.
\<close>

theorem split_and_transcribe_segments:
  "(0 < w \<longrightarrow>
       length (segments d w) = (d + w - 1) div w
     \<and> (\<forall>k < length (segments d w).
          segments d w ! k =
            (Suc k, k * w,
             if Suc k < length (segments d w) then w else if d mod w = 0 then w else d mod w))
     \<and> (0 < d \<and> d < w \<longrightarrow> length (segments d w) = 1)
     \<and> (d = 0 \<longrightarrow> segments d w = []))
   \<and> (split_and_transcribe e model language st = (Inr p, st') \<and> from_file e st = Inr d \<longrightarrow>
        exported (trace st') = exported (trace st) @ segments d SEGMENT_MS)"
  using segments_partition [of w d] split_and_transcribe_exported [of e model language st p st' d]
  by blast

theorem split_and_transcribe_segments_witness:
  "0 < SEGMENT_MS
   \<and> length (segments 1500000 SEGMENT_MS) = 3
   \<and> segments 1500000 SEGMENT_MS ! 2 = (3, 1200000, 300000)
   \<and> length (segments 300000 SEGMENT_MS) = 1
   \<and> segments 0 SEGMENT_MS = []
   \<and> fst (split_and_transcribe env_25min ''small'' ''Russian'' world_upload) = Inr full_txt
   \<and> from_file env_25min world_upload = Inr 1500000
   \<and> exported (trace (snd (split_and_transcribe env_25min ''small'' ''Russian'' world_upload)))
       = [(1, 0, 600000), (2, 600000, 600000), (3, 1200000, 300000)]"
proof -
  let ?run = "split_and_transcribe env_25min ''small'' ''Russian'' world_upload"
  have w: "0 < SEGMENT_MS" by (simp add: SEGMENT_MS_def)
  have d: "from_file env_25min world_upload = Inr 1500000"
    by (simp add: from_file_def env_25min_def world_upload_def)
  have r: "fst ?run = Inr full_txt"
    by (rule run_25min)
  then have run: "?run = (Inr full_txt, snd ?run)" by (metis prod.collapse)
  note a = split_and_transcribe_segments [of SEGMENT_MS 1500000 env_25min "''small''" "''Russian''"
      world_upload full_txt "snd ?run"]
  note b = split_and_transcribe_segments [of SEGMENT_MS 300000 env_25min "''small''" "''Russian''"
      world_upload full_txt "snd ?run"]
  note c = split_and_transcribe_segments [of SEGMENT_MS 0 env_25min "''small''" "''Russian''"
      world_upload full_txt "snd ?run"]
  have l3: "length (segments 1500000 SEGMENT_MS) = 3" using a w by (simp add: SEGMENT_MS_def)
  have "(2::nat) < length (segments 1500000 SEGMENT_MS)" using l3 by simp
  with a w have n2: "segments 1500000 SEGMENT_MS ! 2 =
        (Suc 2, 2 * SEGMENT_MS,
         if Suc 2 < length (segments 1500000 SEGMENT_MS) then SEGMENT_MS
         else if 1500000 mod SEGMENT_MS = 0 then SEGMENT_MS else 1500000 mod SEGMENT_MS)"
    by blast
  have s2: "segments 1500000 SEGMENT_MS ! 2 = (3, 1200000, 300000)"
    unfolding n2 l3 by (simp add: SEGMENT_MS_def)
  have l1: "length (segments 300000 SEGMENT_MS) = 1" using b w by (simp add: SEGMENT_MS_def)
  have e0: "segments 0 SEGMENT_MS = []" using c w by simp
  have ex: "exported (trace (snd ?run)) = exported (trace world_upload) @ segments 1500000 SEGMENT_MS"
    using a run d by simp
  show ?thesis using w l3 s2 l1 e0 r d ex by (simp add: segments_25min world_upload_def)
qed

text \<open>
  C2 as stated fails for the duration 0, which is shorter than one window: the loop body
  never runs and there is no segment, not one.
\<close>

theorem one_segment_counterexample:
  "0 < SEGMENT_MS \<and> length (segments 0 SEGMENT_MS) \<noteq> 1"
  by (simp add: segments_def py_range_empty SEGMENT_MS_def)

text \<open>
  C7, as the code has it. A source that cannot be read (not there, or not decodable) ends
  the call in \<open>IOFailure\<close>; a readable source of duration 0 ends it normally, with the path
  of an aggregate file that was never created. In both cases the final state is the
  initial one without the old aggregate and without the source: no call to a collaborator
  was made, no file was written.
\<close>

theorem unreadable_or_empty_source:
  "(from_file e st = Inl err \<longrightarrow>
      split_and_transcribe e model language st = (Inl IOFailure, unlink file_path (unlink full_txt st)))
   \<and> (from_file e st = Inr 0 \<longrightarrow>
      split_and_transcribe e model language st = (Inr full_txt, unlink file_path (unlink full_txt st)))"
  by (auto simp: split_and_transcribe_def unlink_def from_file_def py_range_empty split: option.splits)

theorem unreadable_or_empty_source_witness:
  "from_file env_unreadable world_upload = Inl IOFailure
   \<and> split_and_transcribe env_unreadable ''small'' ''Russian'' world_upload
       = (Inl IOFailure, \<lparr>fs = (\<lambda>p. None), trace = []\<rparr>)
   \<and> from_file env_zero world_upload = Inr 0
   \<and> split_and_transcribe env_zero ''small'' ''Russian'' world_upload
       = (Inr full_txt, \<lparr>fs = (\<lambda>p. None), trace = []\<rparr>)"
proof -
  have u: "from_file env_unreadable world_upload = Inl IOFailure"
    by (simp add: from_file_def env_unreadable_def world_upload_def)
  have z: "from_file env_zero world_upload = Inr 0"
    by (simp add: from_file_def env_zero_def world_upload_def)
  have c: "unlink file_path (unlink full_txt world_upload) = \<lparr>fs = (\<lambda>p. None), trace = []\<rparr>"
    by (simp add: unlink_def world_upload_def)
  from unreadable_or_empty_source [of env_unreadable world_upload IOFailure "''small''" "''Russian''"]
       unreadable_or_empty_source [of env_zero world_upload IOFailure "''small''" "''Russian''"]
       u z c
  show ?thesis by simp
qed

text \<open>
  C7 as stated fails for a readable source of duration 0: the call does not end in
  \<open>IOFailure\<close>.
\<close>

theorem zero_duration_counterexample:
  "from_file env_zero world_upload = Inr 0
   \<and> fst (split_and_transcribe env_zero ''small'' ''Russian'' world_upload) \<noteq> Inl IOFailure"
  by (simp add: split_and_transcribe_def unlink_def from_file_def env_zero_def env_25min_def
      world_upload_def py_range_empty)

text \<open>
  C3 as stated fails for a readable source of duration 0: the call succeeds, over no
  segment, and the transcript it returns does not exist, so it has no content.
\<close>

theorem no_transcript_counterexample:
  "fst (split_and_transcribe env_zero ''small'' ''Russian'' world_upload) = Inr full_txt
   \<and> fs (snd (split_and_transcribe env_zero ''small'' ''Russian'' world_upload)) full_txt = None"
  by (simp add: split_and_transcribe_def unlink_def from_file_def env_zero_def env_25min_def
      world_upload_def py_range_empty)

lemma for_segments_all_exported:
  "for_segments e m l d xs st = (Inr u, st') \<Longrightarrow> i \<in> fst ` set xs \<Longrightarrow> export_mp3 e i = Exported"
proof (induction xs arbitrary: st)
  case Nil
  then show ?case by simp
next
  case (Cons x xs)
  obtain j start where x: "x = (j, start)" by (cases x)
  from Cons.prems(1) x obtain st1 where
    p: "process_segment e m l d j start st = (Inr (), st1)" and
    r: "for_segments e m l d xs st1 = (Inr u, st')"
    by (auto split: prod.splits sum.splits)
  show ?case
  proof (cases "i = j")
    case True
    with process_segment_exported [OF p] show ?thesis by simp
  next
    case False
    with Cons.prems(2) x have "i \<in> fst ` set xs" by auto
    with Cons.IH [OF r] show ?thesis .
  qed
qed

lemma split_and_transcribe_all_succeeded:
  assumes run: "split_and_transcribe e model language st = (Inr p, st')"
  shows "\<exists>d. from_file e st = Inr d
           \<and> (\<forall>i. 1 \<le> i \<and> i \<le> length (segments d SEGMENT_MS) \<longrightarrow>
                  export_mp3 e i = Exported \<and> segment_transcript e model language (fs st) i \<noteq> None)"
proof (cases "from_file e st")
  case (Inl err)
  have "split_and_transcribe e model language st = (Inl err, unlink file_path (unlink full_txt st))"
    by (simp add: split_and_transcribe_def from_file_unlink_full Inl)
  with run show ?thesis by simp
next
  case (Inr d)
  let ?xs = "enumerate 1 (py_range 0 d SEGMENT_MS)"
  let ?st1 = "unlink full_txt st"
  obtain r2 st2 where loop: "for_segments e model language d ?xs ?st1 = (r2, st2)" by force
  from split_and_transcribe_loop [OF Inr loop] run have r2: "r2 = Inr ()" by (auto split: sum.splits)
  have fsts: "map fst ?xs = [1..<Suc (length (segments d SEGMENT_MS))]"
    by (simp add: segments_def del: upt_Suc)
  have dist: "distinct (map fst ?xs)" by simp
  from for_segments_success [OF loop [unfolded r2] dist] obtain ts where
    ts: "map (\<lambda>x. segment_transcript e model language (fs ?st1) (fst x)) ?xs = map Some ts"
    by blast
  have "export_mp3 e i = Exported \<and> segment_transcript e model language (fs st) i \<noteq> None"
    if i: "1 \<le> i \<and> i \<le> length (segments d SEGMENT_MS)" for i
  proof -
    from i have mem: "i \<in> set (map fst ?xs)" unfolding fsts by auto
    have img: "i \<in> fst ` set ?xs" using mem unfolding set_map .
    from for_segments_all_exported [OF loop [unfolded r2] img] have ex: "export_mp3 e i = Exported" .
    from img obtain x where x: "x \<in> set ?xs" "fst x = i" by (auto simp del: enumerate_simps)
    have "segment_transcript e model language (fs ?st1) (fst x)
               \<in> set (map (\<lambda>x. segment_transcript e model language (fs ?st1) (fst x)) ?xs)"
      unfolding set_map using x(1) by (rule imageI)
    then have "segment_transcript e model language (fs ?st1) i \<in> set (map Some ts)"
      unfolding ts x(2) .
    then have "segment_transcript e model language (fs ?st1) i \<noteq> None" by auto
    moreover have "segment_transcript e model language (fs ?st1) i = segment_transcript e model language (fs st) i"
      by (intro segment_transcript_cong) (simp add: unlink_def)
    ultimately show ?thesis using ex by simp
  qed
  with Inr show ?thesis by blast
qed

text \<open>
  C1 (cleanup on every exit path). The slice is exported before the inner \<^verbatim>\<open>try\<close> is
  entered, so when the export raises after the mp3 file was created, the \<^verbatim>\<open>finally\<close>
  clause that removes it never runs: with an export that fails on segment 1 leaving an
  empty file, the call ends in \<open>IOFailure\<close> and \<open>chunk_path 1\<close>, absent before, is still
  there afterwards. (Lemma \<open>split_and_transcribe_cleanup\<close> above is the cleanup that does
  hold: whenever no failed export leaves a file, no slice and no segment transcript is
  left or changed, whatever the engine does, and the source is removed on every path.)
\<close>

theorem failed_export_leaves_chunk:
  "fs world_upload (chunk_path 1) = None
   \<and> export_mp3 env_export_fails 1 = ExportFailed (Some [])
   \<and> fst (split_and_transcribe env_export_fails ''small'' ''Russian'' world_upload) = Inl IOFailure
   \<and> fs (snd (split_and_transcribe env_export_fails ''small'' ''Russian'' world_upload)) (chunk_path 1)
       = Some []"
  by (simp add: split_and_transcribe_def from_file_def unlink_def py_range_25min
      process_segment_def write_opt_def Let_def env_export_fails_def env_25min_def world_upload_def)

text \<open>
  C10 (no content left over from an earlier run). The aggregate file is removed before
  anything else happens, so the result and the final state of a call do not depend on
  whether an aggregate file was there before, nor on what it held.
\<close>

theorem old_aggregate_ignored:
  "split_and_transcribe e model language (st\<lparr>fs := (fs st)(full_txt := old)\<rparr>)
   = split_and_transcribe e model language st"
  by (simp add: split_and_transcribe_def unlink_def)

section \<open>Properties of sanitize_html\<close>

lemma py_find_None_iff: "py_find sub s = None \<longleftrightarrow> \<not> sublist sub s"
  by (induction s) (auto simp: sublist_Cons_right)

lemma py_in_sublist: "py_in sub s \<longleftrightarrow> sublist sub s"
  by (simp add: py_in_def py_find_None_iff)

lemma subseq_py_replace: "subseq (py_replace old [] s) s"
proof (induction old "[] :: string" s rule: py_replace.induct)
  case (1 old s)
  show ?case
  proof (cases s)
    case Nil
    then show ?thesis by (simp add: py_replace.simps)
  next
    case (Cons c cs)
    show ?thesis
    proof (cases "old \<noteq> [] \<and> prefix old s")
      case True
      with Cons 1(1) have "subseq (py_replace old [] (drop (length old) s)) (drop (length old) s)"
        by simp
      moreover have "subseq (drop (length old) s) s"
        by (metis append_take_drop_id list_emb_append2 subseq_order.order_refl)
      ultimately have "subseq (py_replace old [] (drop (length old) s)) s"
        using subseq_order.order_trans by blast
      with True Cons show ?thesis by (subst py_replace.simps) simp
    next
      case False
      with Cons 1(2) have "subseq (py_replace old [] cs) cs" by simp
      with False Cons show ?thesis by (subst py_replace.simps) auto
    qed
  qed
qed

lemma prefix_replicate_lead: "prefix (replicate n c) s \<longleftrightarrow> n \<le> lead c s"
proof (induction s arbitrary: n)
  case Nil
  then show ?case by (simp add: lead_def)
next
  case (Cons x xs)
  show ?case
  proof (cases n)
    case 0
    then show ?thesis by simp
  next
    case (Suc m)
    with Cons [of m] show ?thesis by (auto simp: lead_def)
  qed
qed

lemma lead_drop: "n \<le> lead c s \<Longrightarrow> lead c (drop n s) = lead c s - n"
proof (induction s arbitrary: n)
  case Nil
  then show ?case by (simp add: lead_def)
next
  case (Cons x xs)
  then show ?case by (cases n) (auto simp: lead_def split: if_splits)
qed

lemma lead_py_replace:
  "0 < n \<Longrightarrow> lead c (py_replace (replicate n c) [] s) = lead c s mod n"
proof (induction "replicate n c" "[] :: string" s rule: py_replace.induct)
  case (1 s)
  show ?case
  proof (cases s)
    case Nil
    then show ?thesis by (simp add: py_replace.simps lead_def)
  next
    case (Cons x xs)
    show ?thesis
    proof (cases "prefix (replicate n c) s")
      case True
      then have le: "n \<le> lead c s" by (simp add: prefix_replicate_lead)
      have ne: "replicate n c \<noteq> []" using 1(3) by simp
      have "py_replace (replicate n c) [] s = py_replace (replicate n c) [] (drop n s)"
        using True Cons ne by (subst py_replace.simps) simp
      moreover have "lead c (py_replace (replicate n c) [] (drop n s)) = lead c (drop n s) mod n"
        using 1(1) [OF Cons] True ne 1(3) by simp
      ultimately show ?thesis using le by (simp add: lead_drop le_mod_geq)
    next
      case False
      then have lt: "lead c s < n" by (simp add: prefix_replicate_lead)
      have r: "py_replace (replicate n c) [] s = x # py_replace (replicate n c) [] xs"
        using False Cons by (subst py_replace.simps) simp
      have IH: "lead c (py_replace (replicate n c) [] xs) = lead c xs mod n"
        using 1(2) [OF Cons] False 1(3) by simp
      show ?thesis
      proof (cases "x = c")
        case True
        with lt Cons have "Suc (lead c xs) < n" by (simp add: lead_def)
        with True Cons r IH lt show ?thesis by (simp add: lead_def)
      next
        case False
        with Cons r show ?thesis by (simp add: lead_def)
      qed
    qed
  qed
qed

lemma no_run_after_replace:
  "0 < n \<Longrightarrow> \<not> sublist (replicate n c) (py_replace (replicate n c) [] s)"
proof (induction "replicate n c" "[] :: string" s rule: py_replace.induct)
  case (1 s)
  show ?case
  proof (cases s)
    case Nil
    then show ?thesis using 1(3) by (simp add: py_replace.simps)
  next
    case (Cons x xs)
    have ne: "replicate n c \<noteq> []" using 1(3) by simp
    show ?thesis
    proof (cases "prefix (replicate n c) s")
      case True
      have "py_replace (replicate n c) [] s = py_replace (replicate n c) [] (drop n s)"
        using True Cons ne by (subst py_replace.simps) simp
      then show ?thesis using 1(1) [OF Cons] True ne 1(3) by simp
    next
      case False
      then have lt: "lead c s < n" by (simp add: prefix_replicate_lead)
      let ?r = "py_replace (replicate n c) [] xs"
      have r: "py_replace (replicate n c) [] s = x # ?r"
        using False Cons by (subst py_replace.simps) simp
      have IH: "\<not> sublist (replicate n c) ?r" using 1(2) [OF Cons] False 1(3) by simp
      have "\<not> prefix (replicate n c) (x # ?r)"
      proof
        assume "prefix (replicate n c) (x # ?r)"
        then have le: "n \<le> lead c (x # ?r)" by (simp add: prefix_replicate_lead)
        then have xc: "x = c" using 1(3) by (auto simp: lead_def split: if_splits)
        with lt Cons have "Suc (lead c xs) < n" by (simp add: lead_def)
        moreover from le xc have "n \<le> Suc (lead c ?r)" by (simp add: lead_def)
        moreover have "lead c ?r = lead c xs mod n" using 1(3) by (rule lead_py_replace)
        ultimately show False by simp
      qed
      with IH r show ?thesis by (simp add: sublist_Cons_right)
    qed
  qed
qed

lemma FENCE_replicate: "FENCE = replicate 3 (CHR 0x60)"
  by (simp add: FENCE_def numeral_3_eq_3)

lemma no_fence_after_strip: "\<not> py_in FENCE (strip_fences t)"
  unfolding py_in_sublist strip_fences_def FENCE_replicate
  by (rule no_run_after_replace) simp

lemma subseq_strip_fences: "subseq (strip_fences t) t"
  unfolding strip_fences_def
  using subseq_py_replace subseq_order.order_trans by blast

lemma sanitize_node_idem: "sanitize_node (sanitize_node n) = sanitize_node n"
  by (induction n) (auto simp: no_fence_after_strip)

lemma shape_sanitize_node: "shape (sanitize_node n) = shape n"
  by (induction n) auto

lemma strings_sanitize_node:
  "strings (sanitize_node n) = map (\<lambda>t. if py_in FENCE t then strip_fences t else t) (strings n)"
proof (induction n)
  case (NavigableString t)
  then show ?case by simp
next
  case (Tag name children)
  then have "map (\<lambda>n. strings (sanitize_node n)) children
           = map (\<lambda>n. map (\<lambda>t. if py_in FENCE t then strip_fences t else t) (strings n)) children"
    by (intro map_cong refl) simp
  then have "concat (map (\<lambda>n. strings (sanitize_node n)) children)
           = concat (map (\<lambda>n. map (\<lambda>t. if py_in FENCE t then strip_fences t else t) (strings n)) children)"
    by (rule arg_cong)
  then show ?case by (simp add: map_concat comp_def)
qed

lemma sanitize_node_clean:
  "(\<And>t. t \<in> set (strings n) \<Longrightarrow> \<not> py_in FENCE t) \<Longrightarrow> sanitize_node n = n"
proof (induction n)
  case (NavigableString t)
  then show ?case by simp
next
  case (Tag name children)
  have "map sanitize_node children = map (\<lambda>n. n) children"
  proof (rule map_cong [OF refl])
    fix c assume c: "c \<in> set children"
    show "sanitize_node c = c"
    proof (rule Tag.IH [OF c])
      fix t assume "t \<in> set (strings c)"
      with c have "t \<in> set (strings (Tag name children))" by auto
      then show "\<not> py_in FENCE t" by (rule Tag.prems)
    qed
  qed
  then show ?case by simp
qed

text \<open>
  C6, as the code has it. Sanitising leaves the tags of the tree and their nesting as they
  are; every string that contains a fence is replaced by what is left of it when first the
  occurrences of the opening marker and then those of the bare fence are removed, and every
  other string stays; what is left is a subsequence of the string and contains no fence.
  The example of the specification keeps the line break that follows the opening marker.
\<close>

theorem fence_stripping_on_strings_only:
  "map shape (map sanitize_node soup) = map shape soup
   \<and> concat (map strings (map sanitize_node soup))
       = map (\<lambda>t. if py_in FENCE t then strip_fences t else t) (concat (map strings soup))
   \<and> strip_fences t = py_replace FENCE [] (py_replace FENCE_HTML [] t)
   \<and> subseq (strip_fences t) t
   \<and> \<not> py_in FENCE (strip_fences t)
   \<and> sanitize_html bs4 fence_example = [CHR 0x0A] @ ''<section><h2>Skills</h2>X</section>''"
proof (intro conjI)
  show "map shape (map sanitize_node soup) = map shape soup"
    by (simp add: shape_sanitize_node)
  show "concat (map strings (map sanitize_node soup))
       = map (\<lambda>t. if py_in FENCE t then strip_fences t else t) (concat (map strings soup))"
    by (simp add: strings_sanitize_node map_concat comp_def)
  show "strip_fences t = py_replace FENCE [] (py_replace FENCE_HTML [] t)"
    by (simp add: strip_fences_def)
  show "subseq (strip_fences t) t" by (rule subseq_strip_fences)
  show "\<not> py_in FENCE (strip_fences t)" by (rule no_fence_after_strip)
  show "sanitize_html bs4 fence_example = [CHR 0x0A] @ ''<section><h2>Skills</h2>X</section>''"
    by code_simp
qed

text \<open>
  C6 as stated fails on its own example: the result is not the bare section, it starts
  with the line break.
\<close>

theorem fence_example_counterexample:
  "sanitize_html bs4 fence_example \<noteq> ''<section><h2>Skills</h2>X</section>''"
  by code_simp

text \<open>
  C9, as the code has it. On the tree, sanitising twice is sanitising once. On the text, a
  second call returns its input unchanged whenever parsing and serialising reproduce this
  input and none of its strings contains a fence.
\<close>

theorem fence_stripping_twice:
  "map sanitize_node (map sanitize_node soup) = map sanitize_node soup
   \<and> (serialize lib (parse lib out) = out
        \<and> (\<forall>t \<in> set (concat (map strings (parse lib out))). \<not> py_in FENCE t)
      \<longrightarrow> sanitize_html lib out = out)"
proof (intro conjI impI)
  show "map sanitize_node (map sanitize_node soup) = map sanitize_node soup"
    by (simp add: sanitize_node_idem)
  assume a: "serialize lib (parse lib out) = out
        \<and> (\<forall>t \<in> set (concat (map strings (parse lib out))). \<not> py_in FENCE t)"
  have "map sanitize_node (parse lib out) = map (\<lambda>n. n) (parse lib out)"
  proof (rule map_cong [OF refl])
    fix n assume "n \<in> set (parse lib out)"
    with a have "\<And>t. t \<in> set (strings n) \<Longrightarrow> \<not> py_in FENCE t" by auto
    then show "sanitize_node n = n" by (rule sanitize_node_clean)
  qed
  with a show "sanitize_html lib out = out" by (simp add: sanitize_html_def)
qed

theorem fence_stripping_twice_witness:
  "serialize bs4 (parse bs4 (sanitize_html bs4 fence_example)) = sanitize_html bs4 fence_example
   \<and> concat (map strings (parse bs4 (sanitize_html bs4 fence_example))) = [[CHR 0x0A], ''Skills'', ''X'']
   \<and> \<not> py_in FENCE [CHR 0x0A] \<and> \<not> py_in FENCE ''Skills'' \<and> \<not> py_in FENCE ''X''
   \<and> sanitize_html bs4 (sanitize_html bs4 fence_example) = sanitize_html bs4 fence_example"
proof -
  have a: "serialize bs4 (parse bs4 (sanitize_html bs4 fence_example)) = sanitize_html bs4 fence_example"
    by code_simp
  have s: "concat (map strings (parse bs4 (sanitize_html bs4 fence_example))) = [[CHR 0x0A], ''Skills'', ''X'']"
    by code_simp
  have f: "\<not> py_in FENCE [CHR 0x0A]" "\<not> py_in FENCE ''Skills''" "\<not> py_in FENCE ''X''"
    by code_simp+
  have b: "\<forall>t \<in> set (concat (map strings (parse bs4 (sanitize_html bs4 fence_example)))). \<not> py_in FENCE t"
    unfolding s using f by simp
  from fence_stripping_twice [of "[]" bs4 "sanitize_html bs4 fence_example"] a b
  have "sanitize_html bs4 (sanitize_html bs4 fence_example) = sanitize_html bs4 fence_example"
    by blast
  with a s f show ?thesis by simp
qed

text \<open>
  C9 as stated fails: the output of the first call holds no fence, but the two line breaks
  left where the opening marker was are a string of white space only, which the parser
  replaces by one line break in the second call.
\<close>

theorem fence_stripping_twice_counterexample:
  "\<not> py_in FENCE (sanitize_html bs4 blank_line_example)
   \<and> sanitize_html bs4 (sanitize_html bs4 blank_line_example) \<noteq> sanitize_html bs4 blank_line_example"
  by code_simp

section \<open>Properties of deduplicate_sections\<close>

lemma keys_simps [simp]:
  "keys [] = {}"
  "keys (s # ss) = (case dedup_key s of None \<Rightarrow> {} | Some k \<Rightarrow> {k}) \<union> keys ss"
  "keys (xs @ ys) = keys xs \<union> keys ys"
  by (auto simp: keys_def split: option.splits)

lemma keep_first_append:
  "keep_first seen (xs @ ys) = keep_first seen xs @ keep_first (seen \<union> keys xs) ys"
proof (induction xs arbitrary: seen)
  case Nil
  then show ?case by simp
next
  case (Cons x xs)
  show ?case
  proof (cases "dedup_key x")
    case None
    then show ?thesis by (simp add: Cons)
  next
    case (Some k)
    then show ?thesis by (simp add: Cons insert_absorb Un_commute insert_commute)
  qed
qed

lemma dedup_no_section: "sections soup = [] \<Longrightarrow> dedup seen soup = (soup, seen)"
  by (induction seen soup rule: dedup.induct) (auto split: if_splits)

lemma dedup_flat:
  "no_nested_section soup \<Longrightarrow>
     sections (fst (dedup seen soup)) = keep_first seen (sections soup)
   \<and> snd (dedup seen soup) = seen \<union> keys (sections soup)
   \<and> without_sections (fst (dedup seen soup)) = without_sections soup"
proof (induction seen soup rule: dedup.induct)
  case (1 seen)
  then show ?case by simp
next
  case (2 seen t ns)
  then show ?case by (auto split: prod.splits)
next
  case (3 seen name children ns)
  let ?cond = "if name = ''section'' then find_tag ''h2'' children else None"
  show ?case
  proof (cases ?cond)
    case None
    from 3(6) have ns: "no_nested_section ns" by simp
    have c: "sections (fst (dedup seen children)) = keep_first seen (sections children)
            \<and> snd (dedup seen children) = seen \<union> keys (sections children)
            \<and> without_sections (fst (dedup seen children)) = without_sections children"
    proof (cases "name = ''section''")
      case True
      with 3(6) have "sections children = []" by simp
      then show ?thesis by (simp add: dedup_no_section)
    next
      case False
      with 3(6) have "no_nested_section children" by simp
      with 3(1) [OF None] show ?thesis by simp
    qed
    let ?seen1 = "snd (dedup seen children)"
    from 3(2) [OF None refl prod.collapse ns]
    have n: "sections (fst (dedup ?seen1 ns)) = keep_first ?seen1 (sections ns)
            \<and> snd (dedup ?seen1 ns) = ?seen1 \<union> keys (sections ns)
            \<and> without_sections (fst (dedup ?seen1 ns)) = without_sections ns" .
    have d: "dedup seen (Tag name children # ns)
             = (Tag name (fst (dedup seen children)) # fst (dedup ?seen1 ns), snd (dedup ?seen1 ns))"
      using None by (simp add: case_prod_beta)
    have k: "dedup_key (Tag name children) = None \<or> name \<noteq> ''section''"
      using None by (auto split: if_splits)
    show ?thesis
    proof (cases "name = ''section''")
      case True
      with 3(6) have flat: "sections children = []" by simp
      from True None have "dedup_key (Tag name children) = None" by simp
      with True flat c n d show ?thesis by (simp add: dedup_no_section)
    next
      case False
      with c n d show ?thesis by (simp add: keep_first_append Un_assoc)
    qed
  next
    case (Some h2)
    then have sec: "name = ''section''" and h2: "find_tag ''h2'' children = Some h2"
      by (auto split: if_splits)
    with 3(6) have flat: "sections children = []" and ns: "no_nested_section ns" by auto
    have key: "dedup_key (Tag name children) = Some (strip (get_text h2))" using h2 by simp
    show ?thesis
    proof (cases "strip (get_text h2) \<in> seen")
      case True
      from 3(3) [OF Some refl True ns]
      have n: "sections (fst (dedup seen ns)) = keep_first seen (sections ns)
            \<and> snd (dedup seen ns) = seen \<union> keys (sections ns)
            \<and> without_sections (fst (dedup seen ns)) = without_sections ns" .
      have d: "dedup seen (Tag name children # ns) = dedup seen ns"
        using Some True by (simp add: Let_def)
      from n sec flat True show ?thesis unfolding d by (simp add: h2 insert_absorb)
    next
      case False
      let ?seen1 = "insert (strip (get_text h2)) seen"
      have leaf: "dedup ?seen1 children = (children, ?seen1)" using flat by (rule dedup_no_section)
      from 3(5) [OF Some refl False refl prod.collapse ns]
      have n: "sections (fst (dedup ?seen1 ns)) = keep_first ?seen1 (sections ns)
            \<and> snd (dedup ?seen1 ns) = ?seen1 \<union> keys (sections ns)
            \<and> without_sections (fst (dedup ?seen1 ns)) = without_sections ns"
        by (simp add: leaf)
      have d: "dedup seen (Tag name children # ns)
               = (Tag name children # fst (dedup ?seen1 ns), snd (dedup ?seen1 ns))"
        using Some False by (simp add: leaf case_prod_beta Let_def)
      from n sec flat False show ?thesis unfolding d by (simp add: h2)
    qed
  qed
qed

lemma upt_0_Suc: "[0..<Suc n] = 0 # map Suc [0..<n]"
  by (simp only: map_Suc_upt upt_conv_Cons [of 0 "Suc n"])

lemma keep_first_index:
  "keep_first seen ss =
     map (\<lambda>k. ss ! k)
       (filter (\<lambda>k. case dedup_key (ss ! k) of
                      None \<Rightarrow> True
                    | Some x \<Rightarrow> x \<notin> seen \<and> Some x \<notin> set (map dedup_key (take k ss)))
          [0..<length ss])"
proof (induction ss arbitrary: seen)
  case Nil
  then show ?case by simp
next
  case (Cons s ss)
  let ?P = "\<lambda>seen ss k. case dedup_key (ss ! k) of
                      None \<Rightarrow> True
                    | Some x \<Rightarrow> x \<notin> seen \<and> Some x \<notin> set (map dedup_key (take k ss))"
  define seen' where
    "seen' = (case dedup_key s of None \<Rightarrow> seen | Some y \<Rightarrow> insert y seen)"
  have tail: "filter (?P seen (s # ss) \<circ> Suc) [0..<length ss] = filter (?P seen' ss) [0..<length ss]"
  proof (rule filter_cong [OF refl])
    fix k assume "k \<in> set [0..<length ss]"
    show "(?P seen (s # ss) \<circ> Suc) k = ?P seen' ss k"
      by (cases "dedup_key s"; cases "dedup_key (ss ! k)") (auto simp: seen'_def)
  qed
  have "map (\<lambda>k. (s # ss) ! k) (filter (?P seen (s # ss)) [0..<length (s # ss)])
        = (if ?P seen (s # ss) 0 then [s] else [])
          @ map (\<lambda>k. ss ! k) (filter (?P seen (s # ss) \<circ> Suc) [0..<length ss])"
    by (simp only: length_Cons upt_0_Suc filter.simps filter_map map_map comp_def)
       (simp add: comp_def)
  also have "\<dots> = (if ?P seen (s # ss) 0 then [s] else []) @ keep_first seen' ss"
    unfolding tail Cons.IH [of seen', symmetric] ..
  also have "\<dots> = keep_first seen (s # ss)"
  proof (cases "dedup_key s")
    case None
    then show ?thesis by (simp add: seen'_def)
  next
    case (Some y)
    show ?thesis
    proof (cases "y \<in> seen")
      case True
      with Some show ?thesis by (simp add: seen'_def insert_absorb)
    next
      case False
      with Some show ?thesis by (simp add: seen'_def)
    qed
  qed
  finally show ?case by simp
qed

lemma keep_first_empty: "keep_first {} ss = first_of_key ss"
  unfolding first_of_key_def keep_first_index
  by (intro arg_cong [where f = "map (\<lambda>k. ss ! k)"] filter_cong refl)
     (auto split: option.splits)

text \<open>
  C5 (first section of each key), for a tree in which no section lies within another
  section. The key of a section is the stripped text of its first \<^verbatim>\<open>h2\<close>. The sections of
  the result are, in document order, the sections of the input that have no key or whose
  key no earlier section has, each one whole; what lies outside the sections is unchanged.
  The fragment with the keys A, B, A, C, B keeps its first A, its first B and its C.
\<close>

theorem first_section_of_each_key:
  "(no_nested_section soup \<longrightarrow>
       sections (fst (dedup {} soup)) = first_of_key (sections soup)
     \<and> without_sections (fst (dedup {} soup)) = without_sections soup)
   \<and> deduplicate_sections bs4 abacb_example =
       ''<section><h2>A</h2>1</section><section><h2> B</h2>2</section><section><h2>C</h2>4</section>''"
proof (intro conjI impI)
  assume flat: "no_nested_section soup"
  from dedup_flat [OF flat, of "{}"]
  show "sections (fst (dedup {} soup)) = first_of_key (sections soup)"
    and "without_sections (fst (dedup {} soup)) = without_sections soup"
    by (simp_all add: keep_first_empty)
next
  show "deduplicate_sections bs4 abacb_example =
       ''<section><h2>A</h2>1</section><section><h2> B</h2>2</section><section><h2>C</h2>4</section>''"
    by code_simp
qed

theorem first_section_of_each_key_witness:
  "no_nested_section (parse bs4 abacb_example)
   \<and> map dedup_key (sections (parse bs4 abacb_example))
       = [Some ''A'', Some ''B'', Some ''A'', Some ''C'', Some ''B'']
   \<and> map get_text (sections (fst (dedup {} (parse bs4 abacb_example)))) = [''A1'', '' B2'', ''C4'']"
proof -
  have f: "no_nested_section (parse bs4 abacb_example)" by code_simp
  have k: "map dedup_key (sections (parse bs4 abacb_example))
       = [Some ''A'', Some ''B'', Some ''A'', Some ''C'', Some ''B'']" by code_simp
  have e: "map get_text (first_of_key (sections (parse bs4 abacb_example))) = [''A1'', '' B2'', ''C4'']"
    by code_simp
  from first_section_of_each_key [of "parse bs4 abacb_example"] f
  have "sections (fst (dedup {} (parse bs4 abacb_example))) = first_of_key (sections (parse bs4 abacb_example))"
    by blast
  with f k e show ?thesis by simp
qed

text \<open>
  C5 as stated fails when a section lies within a removed one. The keys are A, A, B, B; the
  first section with key B (text \<open>B3\<close>) lies in the second section with key A and goes with
  it, and the later section with key B (text \<open>B4\<close>) stays.
\<close>

theorem nested_section_counterexample:
  "map dedup_key (sections (parse bs4 nested_example)) = [Some ''A'', Some ''A'', Some ''B'', Some ''B'']
   \<and> map get_text (first_of_key (sections (parse bs4 nested_example))) = [''A1'', ''B3'']
   \<and> map get_text (sections (fst (dedup {} (parse bs4 nested_example)))) = [''A1'', ''B4'']
   \<and> deduplicate_sections bs4 nested_example
       = ''<section><h2>A</h2>1</section><section><h2>B</h2>4</section>''"
  by code_simp

section \<open>Properties of generate_portfolio\<close>

text \<open>
  C8, as the code has it. \<open>generate_portfolio\<close> returns a result exactly when every stage
  before the PDF succeeded: the text is not blank, both templates are there, the model is
  downloaded and loaded, the model answers, and the answer is not a request for
  clarification. The page is then the layout with the cleaned fragment, and the PDF is
  what the renderer returns, or empty when the renderer fails. \<open>split_and_transcribe\<close>
  returns a result only when the source was read and, for every segment, the export
  succeeded and the transcript of the engine was there.
\<close>

theorem generate_portfolio_result:
  "(generate_portfolio c presentation = Inr (full_html, pdf_bytes) \<longleftrightarrow>
     strip presentation \<noteq> []
   \<and> (\<exists>prompt_tpl layout_tpl model_path text generated.
         files c PROMPT_TEMPLATE = Some prompt_tpl
       \<and> files c LAYOUT_TEMPLATE = Some layout_tpl
       \<and> download_model c = Some model_path
       \<and> load_llama c model_path = Some ()
       \<and> llm c (make_prompt prompt_tpl presentation) = Some text
       \<and> extract_fragment (strip text) = Inr generated
       \<and> full_html = py_replace ''{{content}}''
            (deduplicate_sections (html_lib c) (sanitize_html (html_lib c) generated)) layout_tpl)
   \<and> pdf_bytes = (case write_pdf c full_html of None \<Rightarrow> [] | Some b \<Rightarrow> b))
   \<and> (split_and_transcribe e model language st = (Inr p, st') \<longrightarrow>
        (\<exists>d. from_file e st = Inr d
           \<and> (\<forall>i. 1 \<le> i \<and> i \<le> length (segments d SEGMENT_MS) \<longrightarrow>
                  export_mp3 e i = Exported \<and> segment_transcript e model language (fs st) i \<noteq> None)))"
proof (intro conjI impI)
  have e: "strip [] = []" by code_simp
  show "generate_portfolio c presentation = Inr (full_html, pdf_bytes) \<longleftrightarrow>
     strip presentation \<noteq> []
   \<and> (\<exists>prompt_tpl layout_tpl model_path text generated.
         files c PROMPT_TEMPLATE = Some prompt_tpl
       \<and> files c LAYOUT_TEMPLATE = Some layout_tpl
       \<and> download_model c = Some model_path
       \<and> load_llama c model_path = Some ()
       \<and> llm c (make_prompt prompt_tpl presentation) = Some text
       \<and> extract_fragment (strip text) = Inr generated
       \<and> full_html = py_replace ''{{content}}''
            (deduplicate_sections (html_lib c) (sanitize_html (html_lib c) generated)) layout_tpl)
   \<and> pdf_bytes = (case write_pdf c full_html of None \<Rightarrow> [] | Some b \<Rightarrow> b)"
    by (auto simp: generate_portfolio_def load_text_def Let_def e
        split: option.splits sum.splits)
next
  assume "split_and_transcribe e model language st = (Inr p, st')"
  then show "\<exists>d. from_file e st = Inr d
           \<and> (\<forall>i. 1 \<le> i \<and> i \<le> length (segments d SEGMENT_MS) \<longrightarrow>
                  export_mp3 e i = Exported \<and> segment_transcript e model language (fs st) i \<noteq> None)"
    by (rule split_and_transcribe_all_succeeded)
qed

theorem generate_portfolio_result_witness:
  "generate_portfolio studio ''I sing''
     = Inr (''<main>'' @ [CHR 0x0A] @ ''<section><h2>Skills</h2>X</section></main>'', ''%PDF'')
   \<and> strip ''I sing'' \<noteq> []
   \<and> llm studio (make_prompt ''Make sections for: {self_presentation}'' ''I sing'') = Some fence_example
   \<and> write_pdf studio (''<main>'' @ [CHR 0x0A] @ ''<section><h2>Skills</h2>X</section></main>'') = Some ''%PDF''
   \<and> fst (split_and_transcribe env_25min ''small'' ''Russian'' world_upload) = Inr full_txt
   \<and> export_mp3 env_25min 3 = Exported
   \<and> segment_transcript env_25min ''small'' ''Russian'' (fs world_upload) 3 \<noteq> None"
proof -
  let ?run = "split_and_transcribe env_25min ''small'' ''Russian'' world_upload"
  let ?page = "''<main>'' @ [CHR 0x0A] @ ''<section><h2>Skills</h2>X</section></main>''"
  have r: "generate_portfolio studio ''I sing'' = Inr (?page, ''%PDF'')"
    by code_simp
  have t: "fst ?run = Inr full_txt"
    by (rule run_25min)
  then have run: "?run = (Inr full_txt, snd ?run)" by (metis prod.collapse)
  have d: "from_file env_25min world_upload = Inr 1500000"
    by (simp add: from_file_def env_25min_def world_upload_def)
  note g = generate_portfolio_result [of studio "''I sing''" ?page "''%PDF''"
      env_25min "''small''" "''Russian''" world_upload full_txt "snd ?run"]
  from g r have s: "strip ''I sing'' \<noteq> []" by blast
  from g run d have "\<forall>i. 1 \<le> i \<and> i \<le> length (segments 1500000 SEGMENT_MS) \<longrightarrow>
      export_mp3 env_25min i = Exported
      \<and> segment_transcript env_25min ''small'' ''Russian'' (fs world_upload) i \<noteq> None"
    by auto
  then have "export_mp3 env_25min 3 = Exported
      \<and> segment_transcript env_25min ''small'' ''Russian'' (fs world_upload) 3 \<noteq> None"
    by (simp add: segments_25min)
  with r s t show ?thesis by (simp add: studio_def)
qed

text \<open>
  C8 as stated fails at the PDF stage: when the renderer fails, the call still returns
  the page, with an empty PDF.
\<close>

theorem pdf_failure_counterexample:
  "write_pdf studio_pdf_fails (''<main>'' @ [CHR 0x0A] @ ''<section><h2>Skills</h2>X</section></main>'') = None
   \<and> generate_portfolio studio_pdf_fails ''I sing''
       = Inr (''<main>'' @ [CHR 0x0A] @ ''<section><h2>Skills</h2>X</section></main>'', [])"
  by code_simp

end
